theory Spec2Isabelle
  imports Main "HOL-Library.List_Lexorder" "HOL-Library.Char_ord"
begin

section \<open>The search storage adapters of workertown\<close>

text \<open>
  The theory embeds the two storage adapters of the search package,
  \<^verbatim>\<open>packages/search/src/storage/sqlite.ts\<close> (class \<^verbatim>\<open>SqliteStorageAdapter\<close>) and
  \<^verbatim>\<open>packages/search/src/storage/d1-storage-adapter.ts\<close> (class \<^verbatim>\<open>D1StorageAdapter\<close>).
  Both issue SQL statements through a query builder against two tables. The database is
  modelled as the pair of its tables, each table as the list of its rows in scan order
  (an insert appends, an update rewrites rows in place, a delete drops rows), and every
  statement as a function on these lists. The two unique indexes of the migration are
  checked by the inserts, which fail with an error value as the engine does. Where SQL
  leaves an order open (rows with equal sort keys, the rows of a group, \<^verbatim>\<open>DISTINCT\<close>), the
  model follows the index of the migration from which the engine answers the statement;
  strings are compared byte by byte, as the engine's default collation does.

  Field names carry a prefix for the record they belong to, as Isabelle records cannot
  share field names: \<open>row_\<close> for the columns \<^verbatim>\<open>id\<close>, \<^verbatim>\<open>tenant\<close>, \<^verbatim>\<open>index\<close>, \<^verbatim>\<open>data\<close> of the
  documents table, \<open>body_\<close> for the upsert body, \<open>sd_\<close> for the returned
  \<^verbatim>\<open>SearchDocument\<close>, \<open>opt_\<close> for \<^verbatim>\<open>GetDocumentsOptions\<close>.
\<close>

subsection \<open>Tables and values\<close>

text \<open>The payload is opaque to the store; it is represented by its JSON text, so that
  \<^verbatim>\<open>JSON.stringify\<close> and \<^verbatim>\<open>JSON.parse\<close> are the two directions of that representation.\<close>

type_synonym json = string

type_synonym timestamp = int

definition JSON_stringify :: "json \<Rightarrow> string" where
  "JSON_stringify v = v"

definition JSON_parse :: "string \<Rightarrow> json" where
  "JSON_parse s = s"

record SearchDocumentTable =
  row_id :: string
  row_tenant :: string
  row_index :: string
  row_data :: string
  created_at :: timestamp
  updated_at :: timestamp

record SearchTagTable =
  tag :: string
  search_document_id :: string

record DatabaseSchema =
  search_documents :: "SearchDocumentTable list"
  search_tags :: "SearchTagTable list"

record UpsertSearchDocumentBody =
  body_id :: string
  body_tenant :: string
  body_index :: string
  body_data :: json

text \<open>\<^verbatim>\<open>SearchDocument\<close>: the sqlite adapter fills \<^verbatim>\<open>tags\<close>; the objects the D1 adapter
  builds have no such property, which is \<open>None\<close> here.\<close>

record SearchDocument =
  sd_id :: string
  sd_tenant :: string
  sd_index :: string
  sd_data :: json
  sd_tags :: "string list option"
  createdAt :: timestamp
  updatedAt :: timestamp

text \<open>\<^verbatim>\<open>GetDocumentsOptions\<close> is declared in \<^verbatim>\<open>storage-adapter.ts\<close>, which is not among
  the sources; the adapters read \<^verbatim>\<open>tenant\<close>, \<^verbatim>\<open>index\<close> and \<^verbatim>\<open>limit\<close> from it. The index
  is tested for truthiness, so it may be absent. The limit is passed to \<^verbatim>\<open>LIMIT\<close> by every
  read query as it is (\<^verbatim>\<open>.limit(options.limit)\<close>, under no condition), and the engine
  refuses a statement whose limit is not a number: a read query is called with a limit,
  the number of rows \<open>opt_limit\<close>.\<close>

record GetDocumentsOptions =
  opt_tenant :: string
  opt_index :: "string option"
  opt_limit :: nat

datatype StorageError = UniqueConstraint string

text \<open>The unique indexes \<^verbatim>\<open>*_search_documents_id_idx\<close> on \<^verbatim>\<open>(id)\<close> and
  \<^verbatim>\<open>*_search_tags_unique_idx\<close> on \<^verbatim>\<open>(tag, search_document_id)\<close> hold in a state:\<close>

definition unique_indexes :: "DatabaseSchema \<Rightarrow> bool" where
  "unique_indexes db =
     (distinct (map row_id (search_documents db)) \<and> distinct (search_tags db))"

subsection \<open>JavaScript helpers\<close>

text \<open>Truthiness of an optional string (\<^verbatim>\<open>if (options.index)\<close>, \<^verbatim>\<open>document.tags ? ...\<close>):
  \<^verbatim>\<open>undefined\<close>, \<^verbatim>\<open>null\<close> and the empty string are falsy. Truthiness of a number
  (\<^verbatim>\<open>existing?.created_at ? ...\<close>): zero is falsy.\<close>

fun truthy_string :: "string option \<Rightarrow> bool" where
  "truthy_string None = False"
| "truthy_string (Some s) = (s \<noteq> [])"

definition truthy_number :: "int \<Rightarrow> bool" where
  "truthy_number n = (n \<noteq> 0)"

text \<open>\<^verbatim>\<open>s.split(sep)\<close> for a separator of one character: one piece more than there are
  separators in \<open>s\<close>.\<close>

fun String_split :: "char \<Rightarrow> string \<Rightarrow> string list" where
  "String_split sep [] = [[]]"
| "String_split sep (c # cs) =
     (if c = sep then [] # String_split sep cs
      else (case String_split sep cs of
              [] \<Rightarrow> [[c]]
            | p # ps \<Rightarrow> (c # p) # ps))"

text \<open>\<^verbatim>\<open>executeTakeFirst\<close>: the first row of the result, or \<^verbatim>\<open>undefined\<close>.\<close>

fun executeTakeFirst :: "'a list \<Rightarrow> 'a option" where
  "executeTakeFirst [] = None"
| "executeTakeFirst (x # xs) = Some x"

subsection \<open>SQL clauses\<close>

text \<open>A left join keeps a left row without a partner, with NULL columns on the right;
  an inner join drops it.\<close>

definition leftJoin :: "'a list \<Rightarrow> 'b list \<Rightarrow> ('a \<Rightarrow> 'b \<Rightarrow> bool) \<Rightarrow> ('a \<times> 'b option) list" where
  "leftJoin ls rs on =
     concat (map (\<lambda>l. case filter (on l) rs of
                         [] \<Rightarrow> [(l, None)]
                       | m # ms \<Rightarrow> map (\<lambda>r. (l, Some r)) (m # ms)) ls)"

definition innerJoin :: "'a list \<Rightarrow> 'b list \<Rightarrow> ('a \<Rightarrow> 'b \<Rightarrow> bool) \<Rightarrow> ('a \<times> 'b) list" where
  "innerJoin ls rs on = concat (map (\<lambda>l. map (\<lambda>r. (l, r)) (filter (on l) rs)) ls)"

text \<open>\<^verbatim>\<open>GROUP BY\<close>: one group for each value of the key, in the order in which the values
  first occur; a group is paired with its first row, from which the bare columns of the
  select list are read.\<close>

fun groupBy :: "('r \<Rightarrow> 'k) \<Rightarrow> 'r list \<Rightarrow> ('r \<times> 'r list) list" where
  "groupBy k [] = []"
| "groupBy k (x # xs) =
     (x, x # filter (\<lambda>y. k y = k x) xs) # groupBy k (filter (\<lambda>y. k y \<noteq> k x) xs)"

text \<open>\<^verbatim>\<open>group_concat(X, ',')\<close>: the non-NULL values of the group joined by commas, NULL
  when there is none.\<close>

fun group_concat :: "string option list \<Rightarrow> string option" where
  "group_concat [] = None"
| "group_concat (None # vs) = group_concat vs"
| "group_concat (Some v # vs) =
     (case group_concat vs of
        None \<Rightarrow> Some v
      | Some rest \<Rightarrow> Some (v @ '','' @ rest))"

text \<open>\<^verbatim>\<open>ORDER BY updated_at DESC\<close>, the only term of every \<^verbatim>\<open>orderBy\<close> of the adapters. SQL
  fixes no order among rows whose \<open>updated_at\<close> are equal. The engine answers the queries
  from the index on \<^verbatim>\<open>(tenant, updated_at, id)\<close> that the migration creates, walked
  backwards, so such rows come by id descending. The model does the same: it sorts the
  rows by the id \<open>i\<close>, then stably by the key \<open>k\<close>, and reverses the list.\<close>

definition orderBy_desc :: "('a \<Rightarrow> int) \<Rightarrow> ('a \<Rightarrow> string) \<Rightarrow> 'a list \<Rightarrow> 'a list" where
  "orderBy_desc k i rows = rev (sort_key k (sort_key i rows))"

text \<open>\<^verbatim>\<open>LIMIT n\<close>: the first \<open>n\<close> rows.\<close>

definition limit :: "nat \<Rightarrow> 'a list \<Rightarrow> 'a list" where
  "limit n rows = take n rows"

text \<open>The tag rows as the engine reads them where a statement filters or deduplicates on
  the tag: through the unique index on \<^verbatim>\<open>(tag, search_document_id)\<close>, ascending.\<close>

definition search_tags_by_index :: "DatabaseSchema \<Rightarrow> SearchTagTable list" where
  "search_tags_by_index db = sort_key tag (sort_key search_document_id (search_tags db))"

subsection \<open>Write statements\<close>

text \<open>\<^verbatim>\<open>INSERT INTO search_documents\<close>: refused by the unique index on \<^verbatim>\<open>id\<close> when
  a row with that id is stored, under whatever tenant and index.\<close>

definition insertInto_search_documents ::
  "SearchDocumentTable \<Rightarrow> DatabaseSchema \<Rightarrow> StorageError + DatabaseSchema" where
  "insertInto_search_documents r db =
     (if row_id r \<in> set (map row_id (search_documents db))
      then Inl (UniqueConstraint ''search_documents_id_idx'')
      else Inr (db\<lparr>search_documents := search_documents db @ [r]\<rparr>))"

text \<open>\<^verbatim>\<open>INSERT INTO search_tags VALUES ...\<close> with several rows: the rows are inserted one
  after the other, each checked against the unique index on \<^verbatim>\<open>(tag, search_document_id)\<close>;
  a violation fails the statement, which then leaves the table as it was.\<close>

fun insert_tag_rows :: "SearchTagTable list \<Rightarrow> SearchTagTable list \<Rightarrow> SearchTagTable list option" where
  "insert_tag_rows [] tbl = Some tbl"
| "insert_tag_rows (r # rs) tbl =
     (if r \<in> set tbl then None else insert_tag_rows rs (tbl @ [r]))"

definition insertInto_search_tags ::
  "SearchTagTable list \<Rightarrow> DatabaseSchema \<Rightarrow> StorageError + DatabaseSchema" where
  "insertInto_search_tags rows db =
     (case insert_tag_rows rows (search_tags db) of
        None \<Rightarrow> Inl (UniqueConstraint ''search_tags_unique_idx'')
      | Some tbl \<Rightarrow> Inr (db\<lparr>search_tags := tbl\<rparr>))"

text \<open>\<^verbatim>\<open>DELETE FROM search_tags WHERE search_document_id = ? AND tag IN (...)\<close>\<close>

definition deleteFrom_search_tags_in :: "string \<Rightarrow> string list \<Rightarrow> DatabaseSchema \<Rightarrow> DatabaseSchema" where
  "deleteFrom_search_tags_in doc ts db =
     db\<lparr>search_tags :=
          filter (\<lambda>t. \<not> (search_document_id t = doc \<and> tag t \<in> set ts)) (search_tags db)\<rparr>"

subsection \<open>SqliteStorageAdapter\<close>

definition sqlite_formatDocument :: "SearchDocumentTable \<times> string option \<Rightarrow> SearchDocument" where
  "sqlite_formatDocument document =
     (case document of (d, tags) \<Rightarrow>
        \<lparr>sd_id = row_id d,
         sd_tenant = row_tenant d,
         sd_index = row_index d,
         sd_data = JSON_parse (row_data d),
         sd_tags = Some (if truthy_string tags
                         then (case tags of None \<Rightarrow> [] | Some s \<Rightarrow> String_split CHR '','' s)
                         else []),
         createdAt = created_at d,
         updatedAt = updated_at d\<rparr>)"

text \<open>The select list of the three read queries: the document columns of the group's
  row and \<^verbatim>\<open>group_concat(wt_search_tags.tag, ',')\<close> over the group.\<close>

definition sqlite_select ::
  "(SearchDocumentTable \<times> SearchTagTable option) \<times> (SearchDocumentTable \<times> SearchTagTable option) list
     \<Rightarrow> SearchDocumentTable \<times> string option" where
  "sqlite_select g =
     (case g of ((d, t), rows) \<Rightarrow> (d, group_concat (map (\<lambda>(d', t'). map_option tag t') rows)))"

definition sqlite_getDocuments :: "GetDocumentsOptions \<Rightarrow> DatabaseSchema \<Rightarrow> SearchDocument list" where
  "sqlite_getDocuments options db =
     (let query = filter (\<lambda>(d, t). row_tenant d = opt_tenant options)
                    (leftJoin (search_documents db) (search_tags db)
                       (\<lambda>d t. search_document_id t = row_id d));
          query = (if truthy_string (opt_index options)
                   then filter (\<lambda>(d, t). Some (row_index d) = opt_index options) query
                   else query);
          records = limit (opt_limit options)
                      (orderBy_desc (\<lambda>(d, tags). updated_at d) (\<lambda>(d, tags). row_id d)
                         (map sqlite_select (groupBy (\<lambda>(d, t). row_id d) query)))
      in map sqlite_formatDocument records)"

text \<open>\<^verbatim>\<open>getDocumentsByTags\<close> selects from the tags table and left-joins the documents, so
  the document columns of a joined row may be NULL. A comparison with NULL is not true:
  the \<^verbatim>\<open>WHERE\<close> on \<^verbatim>\<open>wt_search_documents.tenant\<close> drops such a row. \<^verbatim>\<open>count(X)\<close> counts the
  rows of the group in which \<open>X\<close> is not NULL. The \<^verbatim>\<open>HAVING\<close> compares it with
  \<^verbatim>\<open>tags.length\<close>, the length of the list as it was passed. The tag rows are found through
  the index on the tag, so the tags of a group are concatenated in ascending order.\<close>

fun sqlite_select_by_tags ::
  "(SearchTagTable \<times> SearchDocumentTable option) \<times> (SearchTagTable \<times> SearchDocumentTable option) list
     \<Rightarrow> (SearchDocumentTable \<times> string option) list" where
  "sqlite_select_by_tags ((t, Some d), rows) =
     [(d, group_concat (map (\<lambda>(t', d'). Some (tag t')) rows))]"
| "sqlite_select_by_tags ((t, None), rows) = []"

definition sqlite_getDocumentsByTags ::
  "string list \<Rightarrow> GetDocumentsOptions \<Rightarrow> DatabaseSchema \<Rightarrow> SearchDocument list" where
  "sqlite_getDocumentsByTags tags options db =
     (let query = filter (\<lambda>(t, d). case d of None \<Rightarrow> False
                                      | Some d \<Rightarrow> row_tenant d = opt_tenant options)
                    (filter (\<lambda>(t, d). tag t \<in> set tags)
                       (leftJoin (search_tags_by_index db) (search_documents db)
                          (\<lambda>t d. search_document_id t = row_id d)));
          query = (if truthy_string (opt_index options)
                   then filter (\<lambda>(t, d). case d of None \<Rightarrow> False
                                           | Some d \<Rightarrow> Some (row_index d) = opt_index options) query
                   else query);
          records = limit (opt_limit options)
                      (orderBy_desc (\<lambda>(d, tags). updated_at d) (\<lambda>(d, tags). row_id d)
                         (concat (map sqlite_select_by_tags
                            (filter (\<lambda>(r, rows). length (filter (\<lambda>(t, d). d \<noteq> None) rows) = length tags)
                               (groupBy (\<lambda>(t, d). map_option row_id d) query)))))
      in map sqlite_formatDocument records)"

definition sqlite_getDocument :: "string \<Rightarrow> DatabaseSchema \<Rightarrow> SearchDocument option" where
  "sqlite_getDocument id' db =
     (let result = executeTakeFirst
                     (map sqlite_select
                        (groupBy (\<lambda>(d, t). row_id d)
                           (filter (\<lambda>(d, t). row_id d = id')
                              (leftJoin (search_documents db) (search_tags db)
                                 (\<lambda>d t. search_document_id t = row_id d)))))
      in case result of
           None \<Rightarrow> None
         | Some r \<Rightarrow> Some (sqlite_formatDocument r))"

text \<open>\<^verbatim>\<open>upsertDocument\<close>, first half: the existence check on \<^verbatim>\<open>id\<close>, \<^verbatim>\<open>tenant\<close> and \<^verbatim>\<open>index\<close>,
  then the insert, or the update (whose \<^verbatim>\<open>WHERE\<close> names the \<^verbatim>\<open>id\<close> alone).\<close>

definition existing_row :: "UpsertSearchDocumentBody \<Rightarrow> DatabaseSchema \<Rightarrow> SearchDocumentTable option" where
  "existing_row document db =
     executeTakeFirst
       (filter (\<lambda>r. row_id r = body_id document \<and> row_tenant r = body_tenant document
                     \<and> row_index r = body_index document)
          (search_documents db))"

definition new_row :: "timestamp \<Rightarrow> UpsertSearchDocumentBody \<Rightarrow> SearchDocumentTable" where
  "new_row now document =
     \<lparr>row_id = body_id document,
      row_tenant = body_tenant document,
      row_index = body_index document,
      row_data = JSON_stringify (body_data document),
      created_at = now,
      updated_at = now\<rparr>"

definition sqlite_write_document ::
  "timestamp \<Rightarrow> UpsertSearchDocumentBody \<Rightarrow> DatabaseSchema \<Rightarrow> StorageError + DatabaseSchema" where
  "sqlite_write_document now document db =
     (case existing_row document db of
        None \<Rightarrow> insertInto_search_documents (new_row now document) db
      | Some existing \<Rightarrow>
          Inr (db\<lparr>search_documents :=
                    map (\<lambda>r. if row_id r = body_id document
                              then r\<lparr>row_data := JSON_stringify (body_data document),
                                     updated_at := now\<rparr>
                              else r)
                      (search_documents db)\<rparr>))"

text \<open>Second half, under \<^verbatim>\<open>if (tags.length > 0)\<close>. \<^verbatim>\<open>tagSet\<close> is built from the rows read
  from the table, and both filters test against it.\<close>

definition existingTags :: "string \<Rightarrow> DatabaseSchema \<Rightarrow> SearchTagTable list" where
  "existingTags doc db = filter (\<lambda>t. search_document_id t = doc) (search_tags db)"

definition sqlite_tagsToAdd :: "string list \<Rightarrow> SearchTagTable list \<Rightarrow> string list" where
  "sqlite_tagsToAdd tags existing =
     (let tagSet = set (map tag existing) in filter (\<lambda>t. t \<notin> tagSet) tags)"

definition sqlite_tagsToRemove :: "string list \<Rightarrow> SearchTagTable list \<Rightarrow> SearchTagTable list" where
  "sqlite_tagsToRemove tags existing =
     (let tagSet = set (map tag existing) in filter (\<lambda>existingTag. tag existingTag \<notin> tagSet) existing)"

definition sqlite_write_tags ::
  "string \<Rightarrow> string list \<Rightarrow> DatabaseSchema \<Rightarrow> DatabaseSchema \<times> StorageError option" where
  "sqlite_write_tags doc tags db =
     (if length tags > 0 then
        (let existing = existingTags doc db;
             tagsToAdd = sqlite_tagsToAdd tags existing;
             tagsToRemove = sqlite_tagsToRemove tags existing
         in case (if length tagsToAdd > 0
                  then insertInto_search_tags
                         (map (\<lambda>t. \<lparr>tag = t, search_document_id = doc\<rparr>) tagsToAdd) db
                  else Inr db) of
              Inl err \<Rightarrow> (db, Some err)
            | Inr db' \<Rightarrow>
                (if length tagsToRemove > 0
                 then deleteFrom_search_tags_in doc (map tag tagsToRemove) db'
                 else db', None))
      else (db, None))"

text \<open>The adapter opens no transaction: a statement that fails rejects the call and
  leaves what the earlier statements wrote. The result is the state after the call and
  either the error or the returned object.\<close>

definition upsert_result ::
  "timestamp \<Rightarrow> UpsertSearchDocumentBody \<Rightarrow> string list option \<Rightarrow> SearchDocumentTable option
     \<Rightarrow> SearchDocument" where
  "upsert_result now document tags existing =
     \<lparr>sd_id = body_id document,
      sd_tenant = body_tenant document,
      sd_index = body_index document,
      sd_data = body_data document,
      sd_tags = tags,
      createdAt = (case existing of
                     None \<Rightarrow> now
                   | Some e \<Rightarrow> if truthy_number (created_at e) then created_at e else now),
      updatedAt = now\<rparr>"

definition sqlite_upsertDocument ::
  "timestamp \<Rightarrow> UpsertSearchDocumentBody \<Rightarrow> string list \<Rightarrow> DatabaseSchema
     \<Rightarrow> DatabaseSchema \<times> (StorageError + SearchDocument)" where
  "sqlite_upsertDocument now document tags db =
     (case sqlite_write_document now document db of
        Inl err \<Rightarrow> (db, Inl err)
      | Inr db1 \<Rightarrow>
          (case sqlite_write_tags (body_id document) tags db1 of
             (db2, Some err) \<Rightarrow> (db2, Inl err)
           | (db2, None) \<Rightarrow>
               (db2, Inr (upsert_result now document (Some tags) (existing_row document db)))))"

text \<open>\<^verbatim>\<open>deleteDocument\<close>: two deletes, both by the id alone. Neither can fail on a
  constraint.\<close>

definition sqlite_deleteDocument ::
  "string \<Rightarrow> DatabaseSchema \<Rightarrow> DatabaseSchema \<times> (StorageError + unit)" where
  "sqlite_deleteDocument id' db =
     (let db1 = db\<lparr>search_documents := filter (\<lambda>r. row_id r \<noteq> id') (search_documents db)\<rparr>;
          db2 = db1\<lparr>search_tags := filter (\<lambda>t. search_document_id t \<noteq> id') (search_tags db1)\<rparr>
      in (db2, Inr ()))"

text \<open>\<^verbatim>\<open>getTags\<close>: \<^verbatim>\<open>SELECT DISTINCT tag\<close>, answered from the index, the tags ascending.\<close>

definition sqlite_getTags :: "DatabaseSchema \<Rightarrow> string list" where
  "sqlite_getTags db = remdups (map tag (search_tags_by_index db))"

subsection \<open>D1StorageAdapter\<close>

definition d1_formatDocument :: "SearchDocumentTable \<Rightarrow> SearchDocument" where
  "d1_formatDocument document =
     \<lparr>sd_id = row_id document,
      sd_tenant = row_tenant document,
      sd_index = row_index document,
      sd_data = JSON_parse (row_data document),
      sd_tags = None,
      createdAt = created_at document,
      updatedAt = updated_at document\<rparr>"

definition d1_getDocuments :: "GetDocumentsOptions \<Rightarrow> DatabaseSchema \<Rightarrow> SearchDocument list" where
  "d1_getDocuments options db =
     (let query = filter (\<lambda>d. row_tenant d = opt_tenant options) (search_documents db);
          query = (if truthy_string (opt_index options)
                   then filter (\<lambda>d. Some (row_index d) = opt_index options) query
                   else query);
          records = limit (opt_limit options) (orderBy_desc updated_at row_id query)
      in map d1_formatDocument records)"

definition d1_getDocumentsByTags ::
  "string list \<Rightarrow> GetDocumentsOptions \<Rightarrow> DatabaseSchema \<Rightarrow> SearchDocument list" where
  "d1_getDocumentsByTags tags options db =
     (let query = filter (\<lambda>(t, d). row_tenant d = opt_tenant options)
                    (filter (\<lambda>(t, d). tag t \<in> set tags)
                       (innerJoin (search_tags_by_index db) (search_documents db)
                          (\<lambda>t d. search_document_id t = row_id d)));
          query = (if truthy_string (opt_index options)
                   then filter (\<lambda>(t, d). Some (row_index d) = opt_index options) query
                   else query);
          records = limit (opt_limit options)
                      (orderBy_desc updated_at row_id
                         (map (\<lambda>((t, d), rows). d)
                            (filter (\<lambda>(r, rows). length rows = length tags)
                               (groupBy (\<lambda>(t, d). row_id d) query))))
      in map d1_formatDocument records)"

definition d1_getDocument :: "string \<Rightarrow> DatabaseSchema \<Rightarrow> SearchDocument option" where
  "d1_getDocument id' db =
     (let result = executeTakeFirst (filter (\<lambda>d. row_id d = id') (search_documents db))
      in case result of
           None \<Rightarrow> None
         | Some r \<Rightarrow> Some (d1_formatDocument r))"

text \<open>\<^verbatim>\<open>indexDocument\<close>: as \<^verbatim>\<open>upsertDocument\<close>, but the update's \<^verbatim>\<open>WHERE\<close> repeats the three
  columns of the existence check, and the two tag filters use \<^verbatim>\<open>find\<close>: a tag is added
  when no stored row has it, a stored row is removed when its tag is not in the list
  passed.\<close>

definition d1_write_document ::
  "timestamp \<Rightarrow> UpsertSearchDocumentBody \<Rightarrow> DatabaseSchema \<Rightarrow> StorageError + DatabaseSchema" where
  "d1_write_document now document db =
     (case existing_row document db of
        None \<Rightarrow> insertInto_search_documents (new_row now document) db
      | Some existing \<Rightarrow>
          Inr (db\<lparr>search_documents :=
                    map (\<lambda>r. if row_id r = body_id document \<and> row_tenant r = body_tenant document
                                 \<and> row_index r = body_index document
                              then r\<lparr>row_data := JSON_stringify (body_data document),
                                     updated_at := now\<rparr>
                              else r)
                      (search_documents db)\<rparr>))"

definition d1_tagsToAdd :: "string list \<Rightarrow> SearchTagTable list \<Rightarrow> string list" where
  "d1_tagsToAdd tags existing =
     filter (\<lambda>t. find (\<lambda>existingTag. tag existingTag = t) existing = None) tags"

definition d1_tagsToRemove :: "string list \<Rightarrow> SearchTagTable list \<Rightarrow> SearchTagTable list" where
  "d1_tagsToRemove tags existing =
     filter (\<lambda>existingTag. find (\<lambda>t. t = tag existingTag) tags = None) existing"

definition d1_write_tags ::
  "string \<Rightarrow> string list \<Rightarrow> DatabaseSchema \<Rightarrow> DatabaseSchema \<times> StorageError option" where
  "d1_write_tags doc tags db =
     (if length tags > 0 then
        (let existing = existingTags doc db;
             tagsToAdd = d1_tagsToAdd tags existing;
             tagsToRemove = d1_tagsToRemove tags existing
         in case (if length tagsToAdd > 0
                  then insertInto_search_tags
                         (map (\<lambda>t. \<lparr>tag = t, search_document_id = doc\<rparr>) tagsToAdd) db
                  else Inr db) of
              Inl err \<Rightarrow> (db, Some err)
            | Inr db' \<Rightarrow>
                (if length tagsToRemove > 0
                 then deleteFrom_search_tags_in doc (map tag tagsToRemove) db'
                 else db', None))
      else (db, None))"

definition d1_indexDocument ::
  "timestamp \<Rightarrow> UpsertSearchDocumentBody \<Rightarrow> string list \<Rightarrow> DatabaseSchema
     \<Rightarrow> DatabaseSchema \<times> (StorageError + SearchDocument)" where
  "d1_indexDocument now document tags db =
     (case d1_write_document now document db of
        Inl err \<Rightarrow> (db, Inl err)
      | Inr db1 \<Rightarrow>
          (case d1_write_tags (body_id document) tags db1 of
             (db2, Some err) \<Rightarrow> (db2, Inl err)
           | (db2, None) \<Rightarrow>
               (db2, Inr (upsert_result now document None (existing_row document db)))))"

definition d1_deleteDocument ::
  "string \<Rightarrow> DatabaseSchema \<Rightarrow> DatabaseSchema \<times> (StorageError + unit)" where
  "d1_deleteDocument id' db =
     (let db1 = db\<lparr>search_documents := filter (\<lambda>r. row_id r \<noteq> id') (search_documents db)\<rparr>;
          db2 = db1\<lparr>search_tags := filter (\<lambda>t. search_document_id t \<noteq> id') (search_tags db1)\<rparr>
      in (db2, Inr ()))"

definition d1_getTags :: "DatabaseSchema \<Rightarrow> string list" where
  "d1_getTags db = remdups (map tag (search_tags_by_index db))"

text \<open>\<^verbatim>\<open>tagDocument\<close> inserts one tag row for an id, whether or not a document has it;
  a conflict on the unique index does nothing.\<close>

definition d1_tagDocument :: "string \<Rightarrow> string \<Rightarrow> DatabaseSchema \<Rightarrow> DatabaseSchema" where
  "d1_tagDocument id' t db =
     (let r = \<lparr>tag = t, search_document_id = id'\<rparr>
      in if r \<in> set (search_tags db) then db else db\<lparr>search_tags := search_tags db @ [r]\<rparr>)"

definition d1_untagDocument :: "string \<Rightarrow> string \<Rightarrow> DatabaseSchema \<Rightarrow> DatabaseSchema" where
  "d1_untagDocument id' t db =
     db\<lparr>search_tags := filter (\<lambda>r. \<not> (search_document_id r = id' \<and> tag r = t)) (search_tags db)\<rparr>"

definition empty_db :: DatabaseSchema where
  "empty_db = \<lparr>search_documents = [], search_tags = []\<rparr>"

subsection \<open>Sequences of calls, and the states of the examples\<close>

text \<open>A sequence of \<^verbatim>\<open>upsertDocument\<close> calls, each with its clock reading, run from a
  state; a call that is rejected leaves the state its statements reached.\<close>

definition sqlite_upserts ::
  "(timestamp \<times> UpsertSearchDocumentBody \<times> string list) list \<Rightarrow> DatabaseSchema \<Rightarrow> DatabaseSchema" where
  "sqlite_upserts calls db =
     fold (\<lambda>(now, document, tags) s. fst (sqlite_upsertDocument now document tags s)) calls db"

definition body_d1 :: UpsertSearchDocumentBody where
  "body_d1 = \<lparr>body_id = ''d1'', body_tenant = ''t1'', body_index = ''docs'', body_data = ''{}''\<rparr>"

definition row_d1 :: SearchDocumentTable where
  "row_d1 = \<lparr>row_id = ''d1'', row_tenant = ''t1'', row_index = ''docs'', row_data = ''{}'',
             created_at = 5, updated_at = 5\<rparr>"

text \<open>The state after \<^verbatim>\<open>upsertDocument(d1, ["x"])\<close> at time 5 on the empty database.\<close>

definition db_d1_x :: DatabaseSchema where
  "db_d1_x = \<lparr>search_documents = [row_d1],
              search_tags = [\<lparr>tag = ''x'', search_document_id = ''d1''\<rparr>]\<rparr>"

definition body_d1_t2 :: UpsertSearchDocumentBody where
  "body_d1_t2 = \<lparr>body_id = ''d1'', body_tenant = ''t2'', body_index = ''docs'', body_data = ''{}''\<rparr>"

definition body_d2 :: UpsertSearchDocumentBody where
  "body_d2 = \<lparr>body_id = ''d2'', body_tenant = ''t1'', body_index = ''docs'', body_data = ''[1]''\<rparr>"

definition body_d1_new :: UpsertSearchDocumentBody where
  "body_d1_new = \<lparr>body_id = ''d1'', body_tenant = ''t1'', body_index = ''docs'', body_data = ''[2]''\<rparr>"

text \<open>The state after \<^verbatim>\<open>tagDocument("ghost", "x")\<close> of the D1 adapter on the empty database:
  a tag row whose id no document has.\<close>

definition db_ghost :: DatabaseSchema where
  "db_ghost = d1_tagDocument ''ghost'' ''x'' empty_db"

subsection \<open>Notions used to state the properties\<close>

text \<open>A returned document without its \<^verbatim>\<open>tags\<close> property.\<close>

definition without_tags :: "SearchDocument \<Rightarrow> SearchDocument" where
  "without_tags d = d\<lparr>sd_tags := None\<rparr>"


text \<open>The rows a read query is about: those of the tenant, and of the index when the
  options name one (an absent or empty \<^verbatim>\<open>index\<close> is falsy and restricts nothing).\<close>

definition in_scope :: "GetDocumentsOptions \<Rightarrow> SearchDocumentTable \<Rightarrow> bool" where
  "in_scope options d =
     (row_tenant d = opt_tenant options
      \<and> (if truthy_string (opt_index options) then Some (row_index d) = opt_index options
         else True))"

text \<open>The stored tag set of a document id.\<close>

definition tags_of :: "string \<Rightarrow> DatabaseSchema \<Rightarrow> string set" where
  "tags_of doc db = tag ` set (existingTags doc db)"

definition body_a :: UpsertSearchDocumentBody where
  "body_a = \<lparr>body_id = ''a'', body_tenant = ''t1'', body_index = ''docs'', body_data = ''{}''\<rparr>"

definition body_b :: UpsertSearchDocumentBody where
  "body_b = \<lparr>body_id = ''b'', body_tenant = ''t1'', body_index = ''docs'', body_data = ''{}''\<rparr>"

text \<open>The state after \<^verbatim>\<open>indexDocument(b, ["x"])\<close> and then \<^verbatim>\<open>indexDocument(a, ["x", "y"])\<close>,
  both at time 5, on the empty database.\<close>

definition db_b_a :: DatabaseSchema where
  "db_b_a = fst (d1_indexDocument 5 body_a [''x'', ''y'']
                   (fst (d1_indexDocument 5 body_b [''x''] empty_db)))"

definition options_t1 :: GetDocumentsOptions where
  "options_t1 = \<lparr>opt_tenant = ''t1'', opt_index = None, opt_limit = 100\<rparr>"

text \<open>The joined rows that \<^verbatim>\<open>getDocumentsByTags\<close> groups (a tag row of the list with its
  document, in scope), and the groups that pass the \<^verbatim>\<open>HAVING\<close> clause.\<close>

definition tag_rows_in_scope ::
  "string list \<Rightarrow> GetDocumentsOptions \<Rightarrow> DatabaseSchema \<Rightarrow> (SearchTagTable \<times> SearchDocumentTable) list" where
  "tag_rows_in_scope tags options db =
     filter (\<lambda>(t, d). tag t \<in> set tags \<and> in_scope options d)
       (innerJoin (search_tags_by_index db) (search_documents db)
          (\<lambda>t d. search_document_id t = row_id d))"

definition matching_groups ::
  "string list \<Rightarrow> GetDocumentsOptions \<Rightarrow> DatabaseSchema
     \<Rightarrow> ((SearchTagTable \<times> SearchDocumentTable) \<times> (SearchTagTable \<times> SearchDocumentTable) list) list" where
  "matching_groups tags options db =
     filter (\<lambda>(r, rows). length rows = length tags)
       (groupBy (\<lambda>(t, d). row_id d) (tag_rows_in_scope tags options db))"

definition body_c :: UpsertSearchDocumentBody where
  "body_c = \<lparr>body_id = ''c'', body_tenant = ''t1'', body_index = ''docs'', body_data = ''{}''\<rparr>"

definition body_e :: UpsertSearchDocumentBody where
  "body_e = \<lparr>body_id = ''e'', body_tenant = ''t2'', body_index = ''docs'', body_data = ''{}''\<rparr>"

text \<open>\<open>db_b_a\<close> after \<^verbatim>\<open>indexDocument(c, ["x"])\<close> at time 9 and, for another tenant,
  \<^verbatim>\<open>indexDocument(e, ["x", "y"])\<close> at time 6.\<close>

definition db_four :: DatabaseSchema where
  "db_four = fst (d1_indexDocument 6 body_e [''x'', ''y'']
                    (fst (d1_indexDocument 9 body_c [''x''] db_b_a)))"


text \<open>The state after \<^verbatim>\<open>indexDocument(b, ["x"])\<close> at time 5, \<^verbatim>\<open>indexDocument(a, ["x", "y"])\<close>
  at time 7 and \<^verbatim>\<open>indexDocument(c, ["x"])\<close> at time 9 on the empty database: no two documents
  are updated at the same time.\<close>

definition db_three :: DatabaseSchema where
  "db_three = fst (d1_indexDocument 9 body_c [''x'']
                     (fst (d1_indexDocument 7 body_a [''x'', ''y'']
                             (fst (d1_indexDocument 5 body_b [''x''] empty_db)))))"

text \<open>A result of a read query comes from a stored row in the scope of the options.\<close>

definition stored_in_scope :: "GetDocumentsOptions \<Rightarrow> DatabaseSchema \<Rightarrow> SearchDocument \<Rightarrow> bool" where
  "stored_in_scope options db d =
     (\<exists>r \<in> set (search_documents db). in_scope options r \<and> without_tags d = d1_formatDocument r)"

text \<open>A call completes when it returns its object rather than an error.\<close>

definition completes :: "DatabaseSchema \<times> (StorageError + 'a) \<Rightarrow> bool" where
  "completes r = (case snd r of Inl err \<Rightarrow> False | Inr v \<Rightarrow> True)"

section \<open>Properties\<close>

subsection \<open>The write statements\<close>

lemma insert_tag_rows_Some:
  "insert_tag_rows rs tbl = Some tbl' \<Longrightarrow> tbl' = tbl @ rs"
proof (induction rs arbitrary: tbl)
  case Nil
  then show ?case by simp
next
  case (Cons r rs)
  show ?case
  proof (cases "r \<in> set tbl")
    case True
    with Cons.prems show ?thesis by simp
  next
    case False
    with Cons.prems have "insert_tag_rows rs (tbl @ [r]) = Some tbl'" by simp
    from Cons.IH [OF this] show ?thesis by simp
  qed
qed

lemma insert_tag_rows_iff:
  "insert_tag_rows rs tbl = Some (tbl @ rs) \<longleftrightarrow> distinct rs \<and> set rs \<inter> set tbl = {}"
proof (induction rs arbitrary: tbl)
  case Nil
  then show ?case by simp
next
  case (Cons r rs)
  have "insert_tag_rows rs (tbl @ [r]) = Some (tbl @ r # rs)
          \<longleftrightarrow> distinct rs \<and> set rs \<inter> set (tbl @ [r]) = {}"
    using Cons.IH [of "tbl @ [r]"] by simp
  then show ?case by (cases "r \<in> set tbl") auto
qed

lemma insert_tag_rows_None:
  "insert_tag_rows rs tbl = None \<longleftrightarrow> \<not> (distinct rs \<and> set rs \<inter> set tbl = {})"
proof (cases "insert_tag_rows rs tbl")
  case None
  then show ?thesis using insert_tag_rows_iff [of rs tbl] by simp
next
  case (Some tbl')
  then have "tbl' = tbl @ rs" by (rule insert_tag_rows_Some)
  with Some show ?thesis using insert_tag_rows_iff [of rs tbl] by simp
qed

lemma insertInto_search_tags_Inr:
  "insertInto_search_tags rows db = Inr db' \<Longrightarrow>
     db' = db\<lparr>search_tags := search_tags db @ rows\<rparr>"
  unfolding insertInto_search_tags_def
  by (cases "insert_tag_rows rows (search_tags db)") (auto dest: insert_tag_rows_Some)

lemma sqlite_tagsToRemove_Nil: "sqlite_tagsToRemove tags existing = []"
  by (simp add: sqlite_tagsToRemove_def)

lemma sqlite_write_tags_cases:
  "sqlite_write_tags doc tags db = (db, None) \<or>
   (\<exists>err. sqlite_write_tags doc tags db = (db, Some err)) \<or>
   sqlite_write_tags doc tags db =
     (db\<lparr>search_tags := search_tags db @
          map (\<lambda>t. \<lparr>tag = t, search_document_id = doc\<rparr>)
            (sqlite_tagsToAdd tags (existingTags doc db))\<rparr>, None)"
  unfolding sqlite_write_tags_def Let_def sqlite_tagsToRemove_Nil
  by (cases "insertInto_search_tags (map (\<lambda>t. \<lparr>tag = t, search_document_id = doc\<rparr>)
        (sqlite_tagsToAdd tags (existingTags doc db))) db")
     (auto dest: insertInto_search_tags_Inr)

lemma sqlite_write_tags_documents:
  "search_documents (fst (sqlite_write_tags doc tags db)) = search_documents db"
  using sqlite_write_tags_cases [of doc tags db] by auto

lemma sqlite_write_tags_mono:
  "set (search_tags db) \<subseteq> set (search_tags (fst (sqlite_write_tags doc tags db)))"
  using sqlite_write_tags_cases [of doc tags db] by auto

lemma insertInto_search_documents_tags:
  "insertInto_search_documents r db = Inr db' \<Longrightarrow> search_tags db' = search_tags db"
  by (auto simp: insertInto_search_documents_def split: if_splits)

lemma sqlite_write_document_tags:
  "sqlite_write_document now document db = Inr db' \<Longrightarrow> search_tags db' = search_tags db"
  by (auto simp: sqlite_write_document_def split: option.splits
      dest: insertInto_search_documents_tags)

lemma d1_write_document_tags:
  "d1_write_document now document db = Inr db' \<Longrightarrow> search_tags db' = search_tags db"
  by (auto simp: d1_write_document_def split: option.splits
      dest: insertInto_search_documents_tags)

lemma sqlite_upsertDocument_fst:
  "sqlite_write_document now document db = Inr db1 \<Longrightarrow>
     fst (sqlite_upsertDocument now document tags db)
       = fst (sqlite_write_tags (body_id document) tags db1)"
  by (simp add: sqlite_upsertDocument_def split: prod.splits option.splits)

lemma sqlite_upsertDocument_tags_mono:
  "set (search_tags db) \<subseteq> set (search_tags (fst (sqlite_upsertDocument now document tags db)))"
proof (cases "sqlite_write_document now document db")
  case (Inl err)
  then show ?thesis by (simp add: sqlite_upsertDocument_def)
next
  case (Inr db1)
  show ?thesis
    using sqlite_write_tags_mono [of db1 "body_id document" tags]
      sqlite_write_document_tags [OF Inr] sqlite_upsertDocument_fst [OF Inr, of tags] by simp
qed

lemma sqlite_upserts_mono:
  "set (search_tags db) \<subseteq> set (search_tags (sqlite_upserts calls db))"
proof (induction calls arbitrary: db)
  case Nil
  then show ?case by (simp add: sqlite_upserts_def)
next
  case (Cons c calls)
  obtain now document tags where c: "c = (now, document, tags)" by (cases c)
  have "sqlite_upserts (c # calls) db
          = sqlite_upserts calls (fst (sqlite_upsertDocument now document tags db))"
    by (simp add: sqlite_upserts_def c)
  then show ?case
    using Cons.IH [of "fst (sqlite_upsertDocument now document tags db)"]
      sqlite_upsertDocument_tags_mono [of db now document tags] by (metis subset_trans)
qed

subsection \<open>The sqlite adapter keeps every tag row\<close>

text \<open>
  C10. In the sqlite adapter, \<^verbatim>\<open>upsertDocument\<close> never deletes a tag row. The list
  \<^verbatim>\<open>tagsToRemove\<close> filters the stored tags of the document against \<^verbatim>\<open>tagSet\<close>, the set
  of those same tags, so it is empty whatever the stored tags and the tags passed. Hence
  the tag table after a call holds every row it held before, and along any sequence of
  calls the tag rows of any document can only grow.
\<close>

theorem sqlite_upsertDocument_never_deletes_tag_row:
  "sqlite_tagsToRemove tags (existingTags (body_id document) db) = []
   \<and> set (search_tags db) \<subseteq> set (search_tags (fst (sqlite_upsertDocument now document tags db)))
   \<and> set (existingTags doc db) \<subseteq> set (existingTags doc (sqlite_upserts calls db))"
proof -
  have "set (existingTags doc db) \<subseteq> set (existingTags doc (sqlite_upserts calls db))"
    using sqlite_upserts_mono [of db calls] by (auto simp: existingTags_def)
  then show ?thesis
    using sqlite_tagsToRemove_Nil sqlite_upsertDocument_tags_mono by simp
qed

theorem sqlite_upsertDocument_never_deletes_tag_row_witness:
  "sqlite_tagsToRemove [''y''] (existingTags (body_id body_d1) db_d1_x) = []
   \<and> set (search_tags db_d1_x)
       \<subseteq> set (search_tags (fst (sqlite_upsertDocument 7 body_d1 [''y''] db_d1_x)))
   \<and> set (existingTags ''d1'' db_d1_x)
       \<subseteq> set (existingTags ''d1'' (sqlite_upserts [(7, body_d1, [''y''])] db_d1_x))
   \<and> search_tags (fst (sqlite_upsertDocument 7 body_d1 [''y''] db_d1_x))
       = [\<lparr>tag = ''x'', search_document_id = ''d1''\<rparr>, \<lparr>tag = ''y'', search_document_id = ''d1''\<rparr>]"
proof -
  have "search_tags (fst (sqlite_upsertDocument 7 body_d1 [''y''] db_d1_x))
       = [\<lparr>tag = ''x'', search_document_id = ''d1''\<rparr>, \<lparr>tag = ''y'', search_document_id = ''d1''\<rparr>]"
    by code_simp
  then show ?thesis
    using sqlite_upsertDocument_never_deletes_tag_row
            [of "[''y'']" body_d1 db_d1_x 7 "''d1''" "[(7, body_d1, [''y''])]"]
    by simp
qed

subsection \<open>Lookups, joins and groups\<close>

lemma executeTakeFirst_None: "executeTakeFirst xs = None \<longleftrightarrow> xs = []"
  by (cases xs) simp_all

lemma executeTakeFirst_Some: "executeTakeFirst xs = Some x \<Longrightarrow> x \<in> set xs"
  by (cases xs) auto

lemma filter_key_distinct:
  "distinct (map f xs) \<Longrightarrow> x \<in> set xs \<Longrightarrow> filter (\<lambda>y. f y = f x) xs = [x]"
proof (induction xs)
  case Nil
  then show ?case by simp
next
  case (Cons a xs)
  show ?case
  proof (cases "a = x")
    case True
    have "f x \<notin> f ` set xs"
      using Cons.prems(1) True by simp
    then have "\<forall>y \<in> set xs. f y \<noteq> f x"
      by (metis imageI)
    then have "filter (\<lambda>y. f y = f x) xs = []"
      by (simp add: filter_empty_conv)
    with True show ?thesis by simp
  next
    case False
    with Cons.prems have "x \<in> set xs" "f a \<noteq> f x" by auto
    with Cons show ?thesis by simp
  qed
qed

lemma existing_row_None:
  "existing_row document db = None \<longleftrightarrow>
     (\<forall>r \<in> set (search_documents db).
        \<not> (row_id r = body_id document \<and> row_tenant r = body_tenant document
            \<and> row_index r = body_index document))"
  by (simp add: existing_row_def executeTakeFirst_None filter_empty_conv)

lemma existing_row_Some:
  "existing_row document db = Some e \<Longrightarrow>
     e \<in> set (search_documents db) \<and> row_id e = body_id document
     \<and> row_tenant e = body_tenant document \<and> row_index e = body_index document"
  unfolding existing_row_def by (drule executeTakeFirst_Some) simp

lemma existing_row_other_scope:
  assumes "distinct (map row_id (search_documents db))"
    and "r \<in> set (search_documents db)" and "row_id r = body_id document"
    and "row_tenant r \<noteq> body_tenant document \<or> row_index r \<noteq> body_index document"
  shows "existing_row document db = None"
proof (rule ccontr)
  assume "existing_row document db \<noteq> None"
  then obtain e where e: "existing_row document db = Some e" by auto
  from existing_row_Some [OF e] have "e \<in> set (search_documents db)" "row_id e = row_id r"
    and *: "row_tenant e = body_tenant document" "row_index e = body_index document"
    using assms(3) by simp_all
  with assms(1,2) have "e = r" by (meson distinct_map inj_onD)
  with * assms(4) show False by simp
qed

lemma insert_rejected:
  "row_id r \<in> row_id ` set (search_documents db) \<Longrightarrow>
     insertInto_search_documents r db = Inl (UniqueConstraint ''search_documents_id_idx'')"
  by (simp add: insertInto_search_documents_def)

lemma leftJoin_Nil: "leftJoin [] rs on = []"
  by (simp add: leftJoin_def)

lemma leftJoin_Cons:
  "leftJoin (l # ls) rs on =
     (case filter (on l) rs of [] \<Rightarrow> [(l, None)] | m # ms \<Rightarrow> map (\<lambda>r. (l, Some r)) (m # ms))
     @ leftJoin ls rs on"
  by (simp add: leftJoin_def)

lemma leftJoin_fst: "(l, r) \<in> set (leftJoin ls rs on) \<Longrightarrow> l \<in> set ls"
  by (induction ls) (auto simp: leftJoin_Nil leftJoin_Cons split: list.splits)

lemma leftJoin_filter_left:
  "filter (\<lambda>(l, r). P l) (leftJoin ls rs on) = leftJoin (filter P ls) rs on"
proof (induction ls)
  case Nil
  then show ?case by (simp add: leftJoin_Nil)
next
  case (Cons l ls)
  have "filter (\<lambda>(l, r). P l)
          (case filter (on l) rs of [] \<Rightarrow> [(l, None)] | m # ms \<Rightarrow> map (\<lambda>r. (l, Some r)) (m # ms))
        = (if P l
           then (case filter (on l) rs of [] \<Rightarrow> [(l, None)]
                 | m # ms \<Rightarrow> map (\<lambda>r. (l, Some r)) (m # ms))
           else [])"
    by (cases "filter (on l) rs") (simp_all add: filter_map comp_def)
  with Cons show ?case by (simp add: leftJoin_Cons)
qed

lemma groupBy_same_key:
  "\<forall>y \<in> set xs. k y = k x \<Longrightarrow> groupBy k (x # xs) = [(x, x # xs)]"
proof -
  assume a: "\<forall>y \<in> set xs. k y = k x"
  then have "filter (\<lambda>y. k y = k x) xs = xs" "filter (\<lambda>y. k y \<noteq> k x) xs = []"
    by (simp_all add: filter_empty_conv)
  then show ?thesis by simp
qed

lemma group_concat_map_Some_Nil: "group_concat (map (\<lambda>t. Some (f t)) []) = None"
  by simp

lemma leftJoin_single:
  "leftJoin [d] ts on
     = (case filter (on d) ts of
          [] \<Rightarrow> [(d, None)]
        | m # ms \<Rightarrow> map (\<lambda>t. (d, Some t)) (m # ms))"
  by (simp add: leftJoin_def)

lemma sqlite_select_single:
  "map sqlite_select (groupBy (\<lambda>(d, t). row_id d) (leftJoin [d] ts on))
     = [(d, group_concat (map (\<lambda>t. Some (tag t)) (filter (on d) ts)))]"
proof (cases "filter (on d) ts")
  case Nil
  then show ?thesis by (simp add: leftJoin_single sqlite_select_def)
next
  case (Cons m ms)
  have "groupBy (\<lambda>(d, t). row_id d) ((d, Some m) # map (\<lambda>t. (d, Some t)) ms)
          = [((d, Some m), (d, Some m) # map (\<lambda>t. (d, Some t)) ms)]"
    by (rule groupBy_same_key) auto
  with Cons show ?thesis
    by (simp add: leftJoin_single sqlite_select_def comp_def)
qed

lemma sqlite_getDocument_stored:
  assumes "distinct (map row_id (search_documents db))" and "r \<in> set (search_documents db)"
  shows "sqlite_getDocument (row_id r) db
    = Some (sqlite_formatDocument
              (r, group_concat (map (\<lambda>t. Some (tag t)) (existingTags (row_id r) db))))"
proof -
  have "filter (\<lambda>d. row_id d = row_id r) (search_documents db) = [r]"
    using assms by (rule filter_key_distinct)
  then have "filter (\<lambda>(d, t). row_id d = row_id r)
               (leftJoin (search_documents db) (search_tags db)
                  (\<lambda>d t. search_document_id t = row_id d))
             = leftJoin [r] (search_tags db) (\<lambda>d t. search_document_id t = row_id d)"
    by (simp add: leftJoin_filter_left)
  then show ?thesis
    by (simp add: sqlite_getDocument_def sqlite_select_single existingTags_def)
qed

lemma sqlite_getDocument_absent:
  assumes "id' \<notin> row_id ` set (search_documents db)"
  shows "sqlite_getDocument id' db = None"
proof -
  have "filter (\<lambda>d. row_id d = id') (search_documents db) = []"
    using assms by (auto simp: filter_empty_conv)
  then have "filter (\<lambda>(d, t). row_id d = id')
               (leftJoin (search_documents db) (search_tags db)
                  (\<lambda>d t. search_document_id t = row_id d)) = []"
    by (simp add: leftJoin_filter_left leftJoin_Nil)
  then show ?thesis by (simp add: sqlite_getDocument_def)
qed

lemma d1_getDocument_stored:
  assumes "distinct (map row_id (search_documents db))" and "r \<in> set (search_documents db)"
  shows "d1_getDocument (row_id r) db = Some (d1_formatDocument r)"
proof -
  have "filter (\<lambda>d. row_id d = row_id r) (search_documents db) = [r]"
    using assms by (rule filter_key_distinct)
  then show ?thesis by (simp add: d1_getDocument_def)
qed

lemma d1_getDocument_absent:
  assumes "id' \<notin> row_id ` set (search_documents db)"
  shows "d1_getDocument id' db = None"
proof -
  have "filter (\<lambda>d. row_id d = id') (search_documents db) = []"
    using assms by (auto simp: filter_empty_conv)
  then show ?thesis by (simp add: d1_getDocument_def)
qed

lemma d1_deleteDocument_eq: "d1_deleteDocument id' db = sqlite_deleteDocument id' db"
  by (simp add: d1_deleteDocument_def sqlite_deleteDocument_def)

lemma deleteDocument_documents:
  "search_documents (fst (sqlite_deleteDocument id' db))
     = filter (\<lambda>r. row_id r \<noteq> id') (search_documents db)"
  by (simp add: sqlite_deleteDocument_def Let_def)

lemma deleteDocument_tags:
  "search_tags (fst (sqlite_deleteDocument id' db))
     = filter (\<lambda>t. search_document_id t \<noteq> id') (search_tags db)"
  by (simp add: sqlite_deleteDocument_def Let_def)

lemma deleteDocument_snd: "snd (sqlite_deleteDocument id' db) = Inr ()"
  by (simp add: sqlite_deleteDocument_def Let_def)

lemma deleteDocument_no_tags: "existingTags id' (fst (sqlite_deleteDocument id' db)) = []"
  by (simp add: existingTags_def deleteDocument_tags filter_empty_conv)

lemma deleteDocument_noop:
  assumes "id' \<notin> row_id ` set (search_documents db)" and "existingTags id' db = []"
  shows "fst (sqlite_deleteDocument id' db) = db"
proof -
  have "filter (\<lambda>r. row_id r \<noteq> id') (search_documents db) = search_documents db"
    using assms(1) by (auto simp: filter_id_conv)
  moreover have "filter (\<lambda>t. search_document_id t \<noteq> id') (search_tags db) = search_tags db"
    using assms(2) by (auto simp: existingTags_def filter_id_conv filter_empty_conv)
  ultimately show ?thesis by (simp add: sqlite_deleteDocument_def Let_def)
qed

subsection \<open>An id reused under another tenant or index\<close>

text \<open>
  C5. In a state that holds a document with id \<open>X\<close> (the unique index on \<^verbatim>\<open>id\<close> holding),
  an upsert with the same id but another tenant or another index finds no existing row,
  since the existence check matches \<^verbatim>\<open>id\<close>, \<^verbatim>\<open>tenant\<close> and \<^verbatim>\<open>index\<close> together; it
  therefore attempts the insert, which the unique index on \<^verbatim>\<open>id\<close> alone refuses: the call
  returns the error and the state is as it was. Both adapters behave so.
\<close>

theorem upsert_reused_id_violates_unique_index:
  assumes "unique_indexes db"
    and "r \<in> set (search_documents db)" and "row_id r = body_id document"
    and "row_tenant r \<noteq> body_tenant document \<or> row_index r \<noteq> body_index document"
  shows "existing_row document db = None
    \<and> sqlite_upsertDocument now document tags db
        = (db, Inl (UniqueConstraint ''search_documents_id_idx''))
    \<and> d1_indexDocument now document tags db
        = (db, Inl (UniqueConstraint ''search_documents_id_idx''))"
proof -
  have none: "existing_row document db = None"
    using assms by (intro existing_row_other_scope) (simp_all add: unique_indexes_def)
  have "row_id (new_row now document) \<in> row_id ` set (search_documents db)"
    using assms(2,3) by (force simp: new_row_def)
  then have "insertInto_search_documents (new_row now document) db
               = Inl (UniqueConstraint ''search_documents_id_idx'')"
    by (rule insert_rejected)
  with none show ?thesis
    by (simp add: sqlite_upsertDocument_def d1_indexDocument_def sqlite_write_document_def
        d1_write_document_def)
qed

theorem upsert_reused_id_violates_unique_index_witness:
  "unique_indexes db_d1_x \<and> row_d1 \<in> set (search_documents db_d1_x)
   \<and> row_id row_d1 = body_id body_d1_t2
   \<and> row_tenant row_d1 \<noteq> body_tenant body_d1_t2
   \<and> existing_row body_d1_t2 db_d1_x = None
   \<and> sqlite_upsertDocument 7 body_d1_t2 [''y''] db_d1_x
        = (db_d1_x, Inl (UniqueConstraint ''search_documents_id_idx''))
   \<and> d1_indexDocument 7 body_d1_t2 [''y''] db_d1_x
        = (db_d1_x, Inl (UniqueConstraint ''search_documents_id_idx''))"
proof -
  have h: "unique_indexes db_d1_x" "row_d1 \<in> set (search_documents db_d1_x)"
    "row_id row_d1 = body_id body_d1_t2" "row_tenant row_d1 \<noteq> body_tenant body_d1_t2"
    by (simp_all add: unique_indexes_def db_d1_x_def row_d1_def body_d1_t2_def)
  show ?thesis
    using h upsert_reused_id_violates_unique_index [of db_d1_x row_d1 body_d1_t2 7 "[''y'']"]
    by simp
qed

subsection \<open>Lookup and deletion by the id alone\<close>

text \<open>
  C9. \<^verbatim>\<open>getDocument\<close> and \<^verbatim>\<open>deleteDocument\<close> take an id and nothing else, and their
  statements filter on the id alone. For any stored row \<open>r\<close>, whatever its tenant and
  its index, the lookup of its id returns that row (formatted, in the sqlite adapter with
  the tags stored for the id), and the deletion of its id removes it. No argument names
  a tenant, so any caller reads or deletes any tenant's document by its id.
\<close>

theorem getDocument_deleteDocument_not_tenant_scoped:
  assumes "distinct (map row_id (search_documents db))" and "r \<in> set (search_documents db)"
  shows "sqlite_getDocument (row_id r) db
           = Some (sqlite_formatDocument
                     (r, group_concat (map (\<lambda>t. Some (tag t)) (existingTags (row_id r) db))))
    \<and> sd_tenant (sqlite_formatDocument
                    (r, group_concat (map (\<lambda>t. Some (tag t)) (existingTags (row_id r) db))))
        = row_tenant r
    \<and> d1_getDocument (row_id r) db = Some (d1_formatDocument r)
    \<and> sd_tenant (d1_formatDocument r) = row_tenant r
    \<and> r \<notin> set (search_documents (fst (sqlite_deleteDocument (row_id r) db)))
    \<and> r \<notin> set (search_documents (fst (d1_deleteDocument (row_id r) db)))"
  using sqlite_getDocument_stored [OF assms] d1_getDocument_stored [OF assms]
  by (simp add: d1_deleteDocument_eq deleteDocument_documents sqlite_formatDocument_def
      d1_formatDocument_def)

theorem getDocument_deleteDocument_not_tenant_scoped_witness:
  "distinct (map row_id (search_documents db_d1_x)) \<and> row_d1 \<in> set (search_documents db_d1_x)
   \<and> row_tenant row_d1 = ''t1''
   \<and> sqlite_getDocument ''d1'' db_d1_x
        = Some \<lparr>sd_id = ''d1'', sd_tenant = ''t1'', sd_index = ''docs'', sd_data = ''{}'',
                sd_tags = Some [''x''], createdAt = 5, updatedAt = 5\<rparr>
   \<and> d1_getDocument ''d1'' db_d1_x
        = Some \<lparr>sd_id = ''d1'', sd_tenant = ''t1'', sd_index = ''docs'', sd_data = ''{}'',
                sd_tags = None, createdAt = 5, updatedAt = 5\<rparr>
   \<and> row_d1 \<notin> set (search_documents (fst (sqlite_deleteDocument ''d1'' db_d1_x)))
   \<and> row_d1 \<notin> set (search_documents (fst (d1_deleteDocument ''d1'' db_d1_x)))"
proof -
  have h: "distinct (map row_id (search_documents db_d1_x))"
    "row_d1 \<in> set (search_documents db_d1_x)"
    by (simp_all add: db_d1_x_def)
  have e: "row_id row_d1 = ''d1''" "row_tenant row_d1 = ''t1''"
    by (simp_all add: row_d1_def)
  have t: "existingTags ''d1'' db_d1_x = [\<lparr>tag = ''x'', search_document_id = ''d1''\<rparr>]"
    by (simp add: existingTags_def db_d1_x_def)
  have f: "sqlite_formatDocument (row_d1, Some ''x'')
             = \<lparr>sd_id = ''d1'', sd_tenant = ''t1'', sd_index = ''docs'', sd_data = ''{}'',
                sd_tags = Some [''x''], createdAt = 5, updatedAt = 5\<rparr>"
    "d1_formatDocument row_d1
             = \<lparr>sd_id = ''d1'', sd_tenant = ''t1'', sd_index = ''docs'', sd_data = ''{}'',
                sd_tags = None, createdAt = 5, updatedAt = 5\<rparr>"
    by (simp_all add: sqlite_formatDocument_def d1_formatDocument_def row_d1_def JSON_parse_def)
  show ?thesis
    using h e getDocument_deleteDocument_not_tenant_scoped [OF h]
    by (simp add: t f)
qed

subsection \<open>The statements of an upsert\<close>

lemma deleteFrom_search_tags_in_documents:
  "search_documents (deleteFrom_search_tags_in doc ts db) = search_documents db"
  by (simp add: deleteFrom_search_tags_in_def)

lemma d1_write_tags_cases:
  "(\<exists>err. d1_write_tags doc tags db = (db, Some err)) \<or>
   (tags = [] \<and> d1_write_tags doc tags db = (db, None)) \<or>
   (tags \<noteq> [] \<and> d1_write_tags doc tags db =
     (let db' = db\<lparr>search_tags := search_tags db @
                   map (\<lambda>t. \<lparr>tag = t, search_document_id = doc\<rparr>)
                     (d1_tagsToAdd tags (existingTags doc db))\<rparr>
      in deleteFrom_search_tags_in doc
           (map tag (d1_tagsToRemove tags (existingTags doc db))) db', None))"
proof (cases "tags = []")
  case True
  then show ?thesis by (simp add: d1_write_tags_def)
next
  case False
  have del: "d1_tagsToRemove tags (existingTags doc db) = [] \<Longrightarrow>
      deleteFrom_search_tags_in doc (map tag (d1_tagsToRemove tags (existingTags doc db))) x = x" for x
    by (simp add: deleteFrom_search_tags_in_def)
  show ?thesis
  proof (cases "d1_tagsToAdd tags (existingTags doc db) = []")
    case True
    with False del show ?thesis
      by (simp add: d1_write_tags_def Let_def)
  next
    case nonempty: False
    show ?thesis
    proof (cases "insertInto_search_tags (map (\<lambda>t. \<lparr>tag = t, search_document_id = doc\<rparr>)
        (d1_tagsToAdd tags (existingTags doc db))) db")
      case (Inl err)
      with False nonempty show ?thesis by (simp add: d1_write_tags_def Let_def)
    next
      case (Inr db')
      from insertInto_search_tags_Inr [OF Inr] Inr False nonempty del show ?thesis
        by (simp add: d1_write_tags_def Let_def)
    qed
  qed
qed

lemma d1_write_tags_documents:
  "search_documents (fst (d1_write_tags doc tags db)) = search_documents db"
  using d1_write_tags_cases [of doc tags db]
  by (auto simp: Let_def deleteFrom_search_tags_in_documents)

lemma d1_indexDocument_fst:
  "d1_write_document now document db = Inr db1 \<Longrightarrow>
     fst (d1_indexDocument now document tags db)
       = fst (d1_write_tags (body_id document) tags db1)"
  by (simp add: d1_indexDocument_def split: prod.splits option.splits)

lemma existing_row_absent_id:
  "body_id document \<notin> row_id ` set (search_documents db) \<Longrightarrow> existing_row document db = None"
  unfolding existing_row_None by (metis imageI)

lemma write_document_insert:
  assumes "body_id document \<notin> row_id ` set (search_documents db)"
  shows "sqlite_write_document now document db
           = Inr (db\<lparr>search_documents := search_documents db @ [new_row now document]\<rparr>)"
    and "d1_write_document now document db
           = Inr (db\<lparr>search_documents := search_documents db @ [new_row now document]\<rparr>)"
proof -
  have "row_id (new_row now document) \<notin> set (map row_id (search_documents db))"
    using assms by (simp add: new_row_def)
  then have "insertInto_search_documents (new_row now document) db
           = Inr (db\<lparr>search_documents := search_documents db @ [new_row now document]\<rparr>)"
    by (simp add: insertInto_search_documents_def)
  then show "sqlite_write_document now document db
           = Inr (db\<lparr>search_documents := search_documents db @ [new_row now document]\<rparr>)"
    and "d1_write_document now document db
           = Inr (db\<lparr>search_documents := search_documents db @ [new_row now document]\<rparr>)"
    using existing_row_absent_id [OF assms]
    by (simp_all add: sqlite_write_document_def d1_write_document_def)
qed

text \<open>The row an update rewrites: the payload and \<open>updated_at\<close> are replaced.\<close>

lemma existing_row_stored:
  assumes "distinct (map row_id (search_documents db))" and "r \<in> set (search_documents db)"
    and "row_id r = body_id document" and "row_tenant r = body_tenant document"
    and "row_index r = body_index document"
  shows "existing_row document db = Some r"
proof -
  have "existing_row document db \<noteq> None"
    using assms(2-5) by (auto simp: existing_row_None)
  then obtain e where e: "existing_row document db = Some e" by auto
  from existing_row_Some [OF e] assms(3) have "e \<in> set (search_documents db)" "row_id e = row_id r"
    by simp_all
  with assms(1,2) have "e = r" by (meson distinct_map inj_onD)
  with e show ?thesis by simp
qed

lemma update_by_id:
  assumes "distinct (map row_id docs)" and "r \<in> set docs"
  shows "map (\<lambda>x. if row_id x = row_id r then f x else x) docs
          = map (\<lambda>x. if x = r then f r else x) docs"
proof (rule map_cong [OF refl])
  fix x assume "x \<in> set docs"
  with assms have "row_id x = row_id r \<longleftrightarrow> x = r"
    by (metis distinct_map inj_onD)
  then show "(if row_id x = row_id r then f x else x) = (if x = r then f r else x)"
    by (cases "x = r") simp_all
qed

lemma update_by_id_tenant_index:
  assumes "distinct (map row_id docs)" and "r \<in> set docs"
  shows "map (\<lambda>x. if row_id x = row_id r \<and> row_tenant x = row_tenant r
                      \<and> row_index x = row_index r then f x else x) docs
          = map (\<lambda>x. if x = r then f r else x) docs"
proof (rule map_cong [OF refl])
  fix x assume "x \<in> set docs"
  with assms have "row_id x = row_id r \<longleftrightarrow> x = r"
    by (metis distinct_map inj_onD)
  then show "(if row_id x = row_id r \<and> row_tenant x = row_tenant r
                  \<and> row_index x = row_index r then f x else x)
             = (if x = r then f r else x)"
    by (cases "x = r") simp_all
qed

lemma sqlite_write_document_update:
  assumes "distinct (map row_id (search_documents db))" and "r \<in> set (search_documents db)"
    and "row_id r = body_id document" and "row_tenant r = body_tenant document"
    and "row_index r = body_index document"
  shows "sqlite_write_document now document db
           = Inr (db\<lparr>search_documents :=
                       map (\<lambda>x. if x = r
                                 then r\<lparr>row_data := JSON_stringify (body_data document),
                                        updated_at := now\<rparr>
                                 else x) (search_documents db)\<rparr>)"
proof -
  have ex: "existing_row document db = Some r"
    using assms by (rule existing_row_stored)
  have "sqlite_write_document now document db
     = Inr (db\<lparr>search_documents :=
                    map (\<lambda>x. if row_id x = row_id r
                              then x\<lparr>row_data := JSON_stringify (body_data document),
                                     updated_at := now\<rparr>
                              else x)
                      (search_documents db)\<rparr>)"
    unfolding sqlite_write_document_def ex assms(3) by simp
  then show ?thesis
    unfolding update_by_id [OF assms(1,2)] .
qed

lemma d1_write_document_update:
  assumes "distinct (map row_id (search_documents db))" and "r \<in> set (search_documents db)"
    and "row_id r = body_id document" and "row_tenant r = body_tenant document"
    and "row_index r = body_index document"
  shows "d1_write_document now document db
           = Inr (db\<lparr>search_documents :=
                       map (\<lambda>x. if x = r
                                 then r\<lparr>row_data := JSON_stringify (body_data document),
                                        updated_at := now\<rparr>
                                 else x) (search_documents db)\<rparr>)"
proof -
  have ex: "existing_row document db = Some r"
    using assms by (rule existing_row_stored)
  have "d1_write_document now document db
     = Inr (db\<lparr>search_documents :=
                    map (\<lambda>x. if row_id x = row_id r \<and> row_tenant x = row_tenant r
                                 \<and> row_index x = row_index r
                              then x\<lparr>row_data := JSON_stringify (body_data document),
                                     updated_at := now\<rparr>
                              else x)
                      (search_documents db)\<rparr>)"
    unfolding d1_write_document_def ex assms(3,4,5) by simp
  then show ?thesis
    unfolding update_by_id_tenant_index [OF assms(1,2)] .
qed

lemma upsert_documents_after:
  "sqlite_write_document now document db = Inr db1 \<Longrightarrow>
     search_documents (fst (sqlite_upsertDocument now document tags db)) = search_documents db1"
  "d1_write_document now document db = Inr db2 \<Longrightarrow>
     search_documents (fst (d1_indexDocument now document tags db)) = search_documents db2"
  by (simp_all add: sqlite_upsertDocument_fst d1_indexDocument_fst
      sqlite_write_tags_documents d1_write_tags_documents)

subsection \<open>The document row written by an upsert\<close>

text \<open>
  C4, as amended. The unique index on \<^verbatim>\<open>id\<close> holding: if no row with the id of the call
  is stored (under any tenant or index), the call appends a new row with
  \<open>created_at = updated_at = now\<close>; if a row with the same id, tenant and index is stored,
  the documents table after the call is the table before with that one row's \<open>data\<close> and
  \<open>updated_at\<close> replaced (\<open>updated_at\<close> by \<open>now\<close>), its \<open>created_at\<close>, \<open>id\<close>, \<open>tenant\<close> and
  \<open>index\<close> and every other row being as they were. This is the documents table whether
  or not the tag statements that follow succeed. Both adapters behave so.
\<close>

theorem upsert_document_row_effect:
  assumes "unique_indexes db"
  shows "(body_id document \<notin> row_id ` set (search_documents db) \<longrightarrow>
            search_documents (fst (sqlite_upsertDocument now document tags db))
              = search_documents db @ [new_row now document]
            \<and> search_documents (fst (d1_indexDocument now document tags db))
              = search_documents db @ [new_row now document]
            \<and> created_at (new_row now document) = now
            \<and> updated_at (new_row now document) = now)
       \<and> (\<forall>r \<in> set (search_documents db).
            row_id r = body_id document \<and> row_tenant r = body_tenant document
              \<and> row_index r = body_index document \<longrightarrow>
            search_documents (fst (sqlite_upsertDocument now document tags db))
              = map (\<lambda>x. if x = r
                          then r\<lparr>row_data := JSON_stringify (body_data document),
                                 updated_at := now\<rparr>
                          else x) (search_documents db)
            \<and> search_documents (fst (d1_indexDocument now document tags db))
              = map (\<lambda>x. if x = r
                          then r\<lparr>row_data := JSON_stringify (body_data document),
                                 updated_at := now\<rparr>
                          else x) (search_documents db))"
proof (intro conjI impI ballI)
  assume a: "body_id document \<notin> row_id ` set (search_documents db)"
  show "search_documents (fst (sqlite_upsertDocument now document tags db))
          = search_documents db @ [new_row now document]"
    using upsert_documents_after(1) [OF write_document_insert(1) [OF a]] by simp
  show "search_documents (fst (d1_indexDocument now document tags db))
          = search_documents db @ [new_row now document]"
    using upsert_documents_after(2) [OF write_document_insert(2) [OF a]] by simp
  show "created_at (new_row now document) = now" "updated_at (new_row now document) = now"
    by (simp_all add: new_row_def)
next
  fix r
  assume r: "r \<in> set (search_documents db)"
    and m: "row_id r = body_id document \<and> row_tenant r = body_tenant document
              \<and> row_index r = body_index document"
  have d: "distinct (map row_id (search_documents db))"
    using assms by (simp add: unique_indexes_def)
  from m have m1: "row_id r = body_id document" and m2: "row_tenant r = body_tenant document"
    and m3: "row_index r = body_index document" by simp_all
  show "search_documents (fst (sqlite_upsertDocument now document tags db))
          = map (\<lambda>x. if x = r
                      then r\<lparr>row_data := JSON_stringify (body_data document), updated_at := now\<rparr>
                      else x) (search_documents db)"
    using upsert_documents_after(1) [OF sqlite_write_document_update [OF d r m1 m2 m3]] by simp
  show "search_documents (fst (d1_indexDocument now document tags db))
          = map (\<lambda>x. if x = r
                      then r\<lparr>row_data := JSON_stringify (body_data document), updated_at := now\<rparr>
                      else x) (search_documents db)"
    using upsert_documents_after(2) [OF d1_write_document_update [OF d r m1 m2 m3]] by simp
qed

theorem upsert_document_row_effect_witness:
  "unique_indexes db_d1_x
   \<and> body_id body_d2 \<notin> row_id ` set (search_documents db_d1_x)
   \<and> search_documents (fst (sqlite_upsertDocument 7 body_d2 [''y''] db_d1_x))
       = [row_d1,
          \<lparr>row_id = ''d2'', row_tenant = ''t1'', row_index = ''docs'', row_data = ''[1]'',
           created_at = 7, updated_at = 7\<rparr>]
   \<and> row_d1 \<in> set (search_documents db_d1_x)
   \<and> row_id row_d1 = body_id body_d1_new \<and> row_tenant row_d1 = body_tenant body_d1_new
   \<and> row_index row_d1 = body_index body_d1_new
   \<and> search_documents (fst (sqlite_upsertDocument 7 body_d1_new [''y''] db_d1_x))
       = [\<lparr>row_id = ''d1'', row_tenant = ''t1'', row_index = ''docs'', row_data = ''[2]'',
           created_at = 5, updated_at = 7\<rparr>]
   \<and> search_documents (fst (d1_indexDocument 7 body_d1_new [''y''] db_d1_x))
       = [\<lparr>row_id = ''d1'', row_tenant = ''t1'', row_index = ''docs'', row_data = ''[2]'',
           created_at = 5, updated_at = 7\<rparr>]"
proof -
  have u: "unique_indexes db_d1_x"
    by (simp add: unique_indexes_def db_d1_x_def)
  have a: "body_id body_d2 \<notin> row_id ` set (search_documents db_d1_x)"
    by (simp add: db_d1_x_def body_d2_def row_d1_def)
  have r: "row_d1 \<in> set (search_documents db_d1_x)"
    by (simp add: db_d1_x_def)
  have m: "row_id row_d1 = body_id body_d1_new \<and> row_tenant row_d1 = body_tenant body_d1_new
             \<and> row_index row_d1 = body_index body_d1_new"
    by (simp add: row_d1_def body_d1_new_def)
  have n: "new_row 7 body_d2
     = \<lparr>row_id = ''d2'', row_tenant = ''t1'', row_index = ''docs'', row_data = ''[1]'',
           created_at = 7, updated_at = 7\<rparr>"
    by (simp add: new_row_def body_d2_def JSON_stringify_def)
  have docs: "search_documents db_d1_x = [row_d1]"
    by (simp add: db_d1_x_def)
  have upd: "row_d1\<lparr>row_data := JSON_stringify (body_data body_d1_new), updated_at := 7\<rparr>
     = \<lparr>row_id = ''d1'', row_tenant = ''t1'', row_index = ''docs'', row_data = ''[2]'',
           created_at = 5, updated_at = 7\<rparr>"
    by (simp add: row_d1_def body_d1_new_def JSON_stringify_def)
  from upsert_document_row_effect [OF u, of body_d2 7 "[''y'']"] a
  have i: "search_documents (fst (sqlite_upsertDocument 7 body_d2 [''y''] db_d1_x))
             = search_documents db_d1_x @ [new_row 7 body_d2]"
    by blast
  from upsert_document_row_effect [OF u, of body_d1_new 7 "[''y'']"] r m
  have "search_documents (fst (sqlite_upsertDocument 7 body_d1_new [''y''] db_d1_x))
              = map (\<lambda>x. if x = row_d1
                          then row_d1\<lparr>row_data := JSON_stringify (body_data body_d1_new),
                                 updated_at := 7\<rparr>
                          else x) (search_documents db_d1_x)
       \<and> search_documents (fst (d1_indexDocument 7 body_d1_new [''y''] db_d1_x))
              = map (\<lambda>x. if x = row_d1
                          then row_d1\<lparr>row_data := JSON_stringify (body_data body_d1_new),
                                 updated_at := 7\<rparr>
                          else x) (search_documents db_d1_x)"
    by blast
  then have j: "search_documents (fst (sqlite_upsertDocument 7 body_d1_new [''y''] db_d1_x))
       = [\<lparr>row_id = ''d1'', row_tenant = ''t1'', row_index = ''docs'', row_data = ''[2]'',
           created_at = 5, updated_at = 7\<rparr>]"
    "search_documents (fst (d1_indexDocument 7 body_d1_new [''y''] db_d1_x))
       = [\<lparr>row_id = ''d1'', row_tenant = ''t1'', row_index = ''docs'', row_data = ''[2]'',
           created_at = 5, updated_at = 7\<rparr>]"
    unfolding docs upd [symmetric] by simp_all
  from i have i': "search_documents (fst (sqlite_upsertDocument 7 body_d2 [''y''] db_d1_x))
       = [row_d1,
          \<lparr>row_id = ''d2'', row_tenant = ''t1'', row_index = ''docs'', row_data = ''[1]'',
           created_at = 7, updated_at = 7\<rparr>]"
    unfolding docs n by simp
  show ?thesis
    using u a r m i' j by blast
qed

text \<open>
  C4 as stated fails where the id is stored under another tenant: no row has the id,
  tenant and index of the call, and yet no row is inserted, the insert being refused by
  the unique index on \<^verbatim>\<open>id\<close>.
\<close>

theorem upsert_document_row_effect_counterexample:
  "existing_row body_d1_t2 db_d1_x = None
   \<and> search_documents (fst (sqlite_upsertDocument 7 body_d1_t2 [] db_d1_x))
       = search_documents db_d1_x
   \<and> search_documents (fst (d1_indexDocument 7 body_d1_t2 [] db_d1_x))
       = search_documents db_d1_x
   \<and> new_row 7 body_d1_t2
       \<notin> set (search_documents (fst (sqlite_upsertDocument 7 body_d1_t2 [] db_d1_x)))
   \<and> snd (sqlite_upsertDocument 7 body_d1_t2 [] db_d1_x)
       = Inl (UniqueConstraint ''search_documents_id_idx'')"
  by (simp add: existing_row_def sqlite_upsertDocument_def d1_indexDocument_def
      sqlite_write_document_def d1_write_document_def insertInto_search_documents_def
      new_row_def body_d1_t2_def db_d1_x_def row_d1_def)

subsection \<open>Deletion\<close>

text \<open>
  C7, as amended. After \<^verbatim>\<open>deleteDocument(id)\<close>, \<^verbatim>\<open>getDocument(id)\<close> finds nothing and no
  tag row has that document id; the call raises no error. When no document has the id,
  the documents table is left as it was and the tag table loses exactly the rows whose
  document id is that id; so when moreover no tag row has the id, the state is unchanged.
  Both adapters behave so.
\<close>

theorem deleteDocument_complete:
  "sqlite_getDocument id' (fst (sqlite_deleteDocument id' db)) = None
   \<and> d1_getDocument id' (fst (d1_deleteDocument id' db)) = None
   \<and> existingTags id' (fst (sqlite_deleteDocument id' db)) = []
   \<and> existingTags id' (fst (d1_deleteDocument id' db)) = []
   \<and> snd (sqlite_deleteDocument id' db) = Inr ()
   \<and> snd (d1_deleteDocument id' db) = Inr ()
   \<and> (id' \<notin> row_id ` set (search_documents db) \<longrightarrow>
         search_documents (fst (sqlite_deleteDocument id' db)) = search_documents db
         \<and> search_documents (fst (d1_deleteDocument id' db)) = search_documents db
         \<and> search_tags (fst (sqlite_deleteDocument id' db))
             = filter (\<lambda>t. search_document_id t \<noteq> id') (search_tags db)
         \<and> search_tags (fst (d1_deleteDocument id' db))
             = filter (\<lambda>t. search_document_id t \<noteq> id') (search_tags db))
   \<and> (id' \<notin> row_id ` set (search_documents db) \<and> existingTags id' db = [] \<longrightarrow>
         fst (sqlite_deleteDocument id' db) = db \<and> fst (d1_deleteDocument id' db) = db)"
proof -
  have gone: "id' \<notin> row_id ` set (search_documents (fst (sqlite_deleteDocument id' db)))"
    by (auto simp: deleteDocument_documents)
  have keep: "search_documents (fst (sqlite_deleteDocument id' db)) = search_documents db"
    if "id' \<notin> row_id ` set (search_documents db)"
  proof -
    have "\<forall>r \<in> set (search_documents db). row_id r \<noteq> id'"
      using that by (metis imageI)
    then show ?thesis
      by (simp add: deleteDocument_documents filter_id_conv)
  qed
  show ?thesis
    using sqlite_getDocument_absent [OF gone] d1_getDocument_absent [OF gone] keep
      deleteDocument_noop [of id' db]
    by (simp add: d1_deleteDocument_eq deleteDocument_no_tags deleteDocument_snd
        deleteDocument_tags)
qed

theorem deleteDocument_complete_witness:
  "sqlite_getDocument ''d1'' (fst (sqlite_deleteDocument ''d1'' db_d1_x)) = None
   \<and> existingTags ''d1'' (fst (sqlite_deleteDocument ''d1'' db_d1_x)) = []
   \<and> fst (sqlite_deleteDocument ''d1'' db_d1_x) = empty_db
   \<and> ''d2'' \<notin> row_id ` set (search_documents db_d1_x)
   \<and> existingTags ''d2'' db_d1_x = []
   \<and> fst (sqlite_deleteDocument ''d2'' db_d1_x) = db_d1_x
   \<and> fst (d1_deleteDocument ''d2'' db_d1_x) = db_d1_x"
proof -
  have a: "''d2'' \<notin> row_id ` set (search_documents db_d1_x)"
    by (simp add: db_d1_x_def row_d1_def)
  have b: "existingTags ''d2'' db_d1_x = []"
    by (simp add: existingTags_def db_d1_x_def)
  have c: "fst (sqlite_deleteDocument ''d1'' db_d1_x) = empty_db"
    by (simp add: sqlite_deleteDocument_def db_d1_x_def row_d1_def empty_db_def Let_def)
  show ?thesis
    using a b c deleteDocument_complete [of "''d1''" db_d1_x]
      deleteDocument_complete [of "''d2''" db_d1_x]
    by simp
qed

text \<open>
  C7 as stated fails in the D1 adapter: \<^verbatim>\<open>tagDocument\<close> stores a tag row for an id that
  no document has, and \<^verbatim>\<open>deleteDocument\<close> of that id then removes the row, so the state
  changes although no document with the id exists.
\<close>

theorem deleteDocument_absent_id_counterexample:
  "''ghost'' \<notin> row_id ` set (search_documents db_ghost)
   \<and> d1_getDocument ''ghost'' db_ghost = None
   \<and> search_tags db_ghost = [\<lparr>tag = ''x'', search_document_id = ''ghost''\<rparr>]
   \<and> search_tags (fst (d1_deleteDocument ''ghost'' db_ghost)) = []
   \<and> fst (d1_deleteDocument ''ghost'' db_ghost) \<noteq> db_ghost"
proof -
  have g: "db_ghost = \<lparr>search_documents = [],
                        search_tags = [\<lparr>tag = ''x'', search_document_id = ''ghost''\<rparr>]\<rparr>"
    by (simp add: db_ghost_def d1_tagDocument_def empty_db_def Let_def)
  show ?thesis
    unfolding g
    by (simp add: d1_getDocument_def d1_deleteDocument_def Let_def)
qed

subsection \<open>Groups, order and limit\<close>

lemma groupBy_member:
  "(x, g) \<in> set (groupBy k xs) \<Longrightarrow> x \<in> set xs \<and> g = filter (\<lambda>y. k y = k x) xs"
proof (induction k xs rule: groupBy.induct)
  case (1 k)
  then show ?case by simp
next
  case (2 k a xs)
  show ?case
  proof (cases "(x, g) = (a, a # filter (\<lambda>y. k y = k a) xs)")
    case True
    then show ?thesis by simp
  next
    case False
    with "2.prems" have "(x, g) \<in> set (groupBy k (filter (\<lambda>y. k y \<noteq> k a) xs))" by auto
    from "2.IH" [OF this]
    have x: "x \<in> set xs" "k x \<noteq> k a"
      and g: "g = filter (\<lambda>y. k y = k x) (filter (\<lambda>y. k y \<noteq> k a) xs)" by simp_all
    have "filter (\<lambda>y. k y = k x) (filter (\<lambda>y. k y \<noteq> k a) xs) = filter (\<lambda>y. k y = k x) xs"
      using x(2) by (auto intro: filter_cong)
    with x g show ?thesis by auto
  qed
qed


lemma set_limit: "set (limit n xs) \<subseteq> set xs"
  by (auto simp: limit_def dest: in_set_takeD)

lemma length_limit: "length (limit n xs) = min n (length xs)"
  by (simp add: limit_def min.commute)


lemma map_limit: "map f (limit n xs) = limit n (map f xs)"
  by (simp add: limit_def take_map)

lemma set_orderBy_desc: "set (orderBy_desc k i xs) = set xs"
  by (simp add: orderBy_desc_def)

lemma length_orderBy_desc: "length (orderBy_desc k i xs) = length xs"
  by (simp add: orderBy_desc_def)

lemma sorted_orderBy_desc: "sorted_wrt (\<lambda>a b. k b \<le> k a) (orderBy_desc k i xs)"
proof -
  have "sorted (map k (sort_key k (sort_key i xs)))"
    by (rule sorted_sort_key)
  then have "sorted_wrt (\<lambda>a b. k a \<le> k b) (sort_key k (sort_key i xs))"
    by (simp add: sorted_map)
  then show ?thesis
    by (simp add: orderBy_desc_def sorted_wrt_rev)
qed




lemma without_tags_format: "without_tags (sqlite_formatDocument (d, ts)) = d1_formatDocument d"
  by (simp add: without_tags_def sqlite_formatDocument_def d1_formatDocument_def)

subsection \<open>The joined rows of the read queries\<close>

lemma innerJoin_member:
  "(l, r) \<in> set (innerJoin ls rs on) \<longleftrightarrow> l \<in> set ls \<and> r \<in> set rs \<and> on l r"
  by (auto simp: innerJoin_def)

lemma innerJoin_Cons:
  "innerJoin (l # ls) rs on = map (\<lambda>r. (l, r)) (filter (on l) rs) @ innerJoin ls rs on"
  by (simp add: innerJoin_def)

lemma leftJoin_filter_Some:
  "filter (\<lambda>(l, r). case r of None \<Rightarrow> False | Some m \<Rightarrow> P l m) (leftJoin ls rs on)
     = map (\<lambda>(l, m). (l, Some m)) (filter (\<lambda>(l, m). P l m) (innerJoin ls rs on))"
proof (induction ls)
  case Nil
  then show ?case by (simp add: leftJoin_Nil innerJoin_def)
next
  case (Cons l ls)
  have "filter (\<lambda>(l, r). case r of None \<Rightarrow> False | Some m \<Rightarrow> P l m)
          (case filter (on l) rs of [] \<Rightarrow> [(l, None)] | m # ms \<Rightarrow> map (\<lambda>r. (l, Some r)) (m # ms))
        = map (\<lambda>(l, m). (l, Some m))
            (filter (\<lambda>(l, m). P l m) (map (\<lambda>r. (l, r)) (filter (on l) rs)))"
  proof (cases "filter (on l) rs")
    case Nil
    then show ?thesis by simp
  next
    case (Cons m ms)
    have "filter (\<lambda>(l, r). case r of None \<Rightarrow> False | Some m \<Rightarrow> P l m) (map (\<lambda>r. (l, Some r)) (m # ms))
        = map (\<lambda>(l, m). (l, Some m)) (filter (\<lambda>(l, m). P l m) (map (\<lambda>r. (l, r)) (m # ms)))"
      by (induction "m # ms" arbitrary: m ms) (simp_all add: filter_map comp_def)
    with Cons show ?thesis by simp
  qed
  with Cons.IH show ?case
    by (simp add: leftJoin_Cons innerJoin_Cons)
qed

text \<open>The rows both \<^verbatim>\<open>getDocumentsByTags\<close> queries group: the pairs of a tag row and its
  document, for the tags of the list and the documents in scope.\<close>

lemma d1_tag_query:
  "(if truthy_string (opt_index options)
    then filter (\<lambda>(t, d). Some (row_index d) = opt_index options)
           (filter (\<lambda>(t, d). row_tenant d = opt_tenant options)
              (filter (\<lambda>(t, d). tag t \<in> set tags) J))
    else filter (\<lambda>(t, d). row_tenant d = opt_tenant options)
           (filter (\<lambda>(t, d). tag t \<in> set tags) J))
   = filter (\<lambda>(t, d). tag t \<in> set tags \<and> in_scope options d) J"
  by (auto simp: in_scope_def intro: filter_cong)

lemma sqlite_tag_query:
  "(if truthy_string (opt_index options)
    then filter (\<lambda>(t, d). case d of None \<Rightarrow> False
                             | Some d \<Rightarrow> Some (row_index d) = opt_index options)
           (filter (\<lambda>(t, d). case d of None \<Rightarrow> False
                                | Some d \<Rightarrow> row_tenant d = opt_tenant options)
              (filter (\<lambda>(t, d). tag t \<in> set tags) J))
    else filter (\<lambda>(t, d). case d of None \<Rightarrow> False
                             | Some d \<Rightarrow> row_tenant d = opt_tenant options)
           (filter (\<lambda>(t, d). tag t \<in> set tags) J))
   = filter (\<lambda>(t, d). case d of None \<Rightarrow> False
                       | Some d \<Rightarrow> tag t \<in> set tags \<and> in_scope options d) J"
  by (auto simp: in_scope_def split: option.splits intro: filter_cong)

lemma groupBy_map:
  assumes "\<And>x y. k' (f x) = k' (f y) \<longleftrightarrow> k x = k y"
  shows "groupBy k' (map f xs) = map (\<lambda>(r, g). (f r, map f g)) (groupBy k xs)"
  using assms
proof (induction k xs rule: groupBy.induct)
  case (1 k)
  then show ?case by simp
next
  case (2 k a xs)
  note key = "2.prems"
  have e: "filter (\<lambda>y. k' y = k' (f a)) (map f xs) = map f (filter (\<lambda>y. k y = k a) xs)"
    by (simp add: filter_map comp_def key)
  have n: "filter (\<lambda>y. k' y \<noteq> k' (f a)) (map f xs) = map f (filter (\<lambda>y. k y \<noteq> k a) xs)"
    by (simp add: filter_map comp_def key)
  show ?case
    using "2.IH" [OF key] by (simp add: e n)
qed

lemma insort_key_map:
  "insort_key k (f x) (map f xs) = map f (insort_key (\<lambda>y. k (f y)) x xs)"
  by (induction xs) simp_all

lemma sort_key_map: "sort_key k (map f xs) = map f (sort_key (\<lambda>y. k (f y)) xs)"
  by (induction xs) (simp_all add: insort_key_map)

lemma orderBy_desc_map:
  "orderBy_desc k i (map f xs) = map f (orderBy_desc (\<lambda>y. k (f y)) (\<lambda>y. i (f y)) xs)"
  by (simp add: orderBy_desc_def sort_key_map rev_map)

lemma d1_getDocumentsByTags_groups:
  "d1_getDocumentsByTags tags options db
     = map d1_formatDocument
         (limit (opt_limit options)
            (orderBy_desc updated_at row_id
               (map (\<lambda>((t, d), rows). d) (matching_groups tags options db))))"
  unfolding d1_getDocumentsByTags_def Let_def d1_tag_query matching_groups_def
    tag_rows_in_scope_def ..

lemma sqlite_groups:
  "filter (\<lambda>(r, rows). length (filter (\<lambda>(t, d). d \<noteq> None) rows) = length tags)
     (groupBy (\<lambda>(t, d). map_option row_id d)
        (map (\<lambda>(t, d). (t, Some d)) (tag_rows_in_scope tags options db)))
   = map (\<lambda>(r, g). ((\<lambda>(t, d). (t, Some d)) r, map (\<lambda>(t, d). (t, Some d)) g))
       (matching_groups tags options db)"
proof -
  have k: "groupBy (\<lambda>(t, d). map_option row_id d)
        (map (\<lambda>(t, d). (t, Some d)) (tag_rows_in_scope tags options db))
     = map (\<lambda>(r, g). ((\<lambda>(t, d). (t, Some d)) r, map (\<lambda>(t, d). (t, Some d)) g))
         (groupBy (\<lambda>(t, d). row_id d) (tag_rows_in_scope tags options db))"
    by (rule groupBy_map) (auto split: prod.splits)
  have c: "length (filter (\<lambda>(t, d). d \<noteq> None) (map (\<lambda>(t, d). (t, Some d)) g)) = length g"
    for g :: "(SearchTagTable \<times> SearchDocumentTable) list"
    by (induction g) (auto split: prod.splits)
  show ?thesis
    unfolding k matching_groups_def
    by (simp add: filter_map comp_def c split_def)
qed

lemma sqlite_select_by_tags_groups:
  "concat (map sqlite_select_by_tags
      (map (\<lambda>(r, g). ((\<lambda>(t, d). (t, Some d)) r, map (\<lambda>(t, d). (t, Some d)) g)) gs))
   = map (\<lambda>((t, d), rows). (d, group_concat (map (\<lambda>(t', d'). Some (tag t')) rows))) gs"
proof (induction gs)
  case Nil
  then show ?case by simp
next
  case (Cons g gs)
  obtain t d rows where g: "g = ((t, d), rows)" by (metis surj_pair)
  have "map (\<lambda>(t', d'). Some (tag t')) (map (\<lambda>(t, d). (t, Some d)) rows)
          = map (\<lambda>(t', d'). Some (tag t')) rows"
    by (induction rows) (simp_all add: split_def)
  with Cons show ?case by (simp add: g del: map_map)
qed

lemma sqlite_getDocumentsByTags_groups:
  "sqlite_getDocumentsByTags tags options db
     = map sqlite_formatDocument
         (limit (opt_limit options)
            (orderBy_desc (\<lambda>(d, tags). updated_at d) (\<lambda>(d, tags). row_id d)
               (map (\<lambda>((t, d), rows). (d, group_concat (map (\<lambda>(t', d'). Some (tag t')) rows)))
                  (matching_groups tags options db))))"
proof -
  have q: "filter (\<lambda>(t, d). case d of None \<Rightarrow> False
                       | Some d \<Rightarrow> tag t \<in> set tags \<and> in_scope options d)
             (leftJoin (search_tags_by_index db) (search_documents db)
                (\<lambda>t d. search_document_id t = row_id d))
           = map (\<lambda>(t, d). (t, Some d)) (tag_rows_in_scope tags options db)"
    unfolding tag_rows_in_scope_def by (rule leftJoin_filter_Some)
  show ?thesis
    unfolding sqlite_getDocumentsByTags_def Let_def sqlite_tag_query q sqlite_groups
      sqlite_select_by_tags_groups ..
qed

lemma getDocumentsByTags_without_tags:
  "map without_tags (sqlite_getDocumentsByTags tags options db)
     = d1_getDocumentsByTags tags options db"
proof -
  have f: "map without_tags (map sqlite_formatDocument xs) = map d1_formatDocument (map fst xs)"
    for xs
    by (induction xs) (auto simp: without_tags_format)
  show ?thesis
    unfolding sqlite_getDocumentsByTags_groups d1_getDocumentsByTags_groups f
    by (simp add: map_limit orderBy_desc_map comp_def split_def)
qed

lemma d1_doc_query:
  "(if truthy_string (opt_index options)
    then filter (\<lambda>d. Some (row_index d) = opt_index options)
           (filter (\<lambda>d. row_tenant d = opt_tenant options) ds)
    else filter (\<lambda>d. row_tenant d = opt_tenant options) ds)
   = filter (in_scope options) ds"
  by (auto simp: in_scope_def intro: filter_cong)

lemma sqlite_doc_query:
  "(if truthy_string (opt_index options)
    then filter (\<lambda>(d, t). Some (row_index d) = opt_index options)
           (filter (\<lambda>(d, t). row_tenant d = opt_tenant options) J)
    else filter (\<lambda>(d, t). row_tenant d = opt_tenant options) J)
   = filter (\<lambda>(d, t). in_scope options d) J"
  by (auto simp: in_scope_def intro: filter_cong)

lemma d1_getDocuments_rows:
  "d1_getDocuments options db
     = map d1_formatDocument
         (limit (opt_limit options)
            (orderBy_desc updated_at row_id (filter (in_scope options) (search_documents db))))"
  unfolding d1_getDocuments_def Let_def d1_doc_query ..

lemma sqlite_getDocuments_groups:
  "sqlite_getDocuments options db
     = map sqlite_formatDocument
         (limit (opt_limit options)
            (orderBy_desc (\<lambda>(d, tags). updated_at d) (\<lambda>(d, tags). row_id d)
               (map sqlite_select
                  (groupBy (\<lambda>(d, t). row_id d)
                     (leftJoin (filter (in_scope options) (search_documents db)) (search_tags db)
                        (\<lambda>d t. search_document_id t = row_id d))))))"
proof -
  have q: "(if truthy_string (opt_index options)
            then filter (\<lambda>(d, t). Some (row_index d) = opt_index options)
                   (filter (\<lambda>(d, t). row_tenant d = opt_tenant options)
                      (leftJoin (search_documents db) (search_tags db)
                         (\<lambda>d t. search_document_id t = row_id d)))
            else filter (\<lambda>(d, t). row_tenant d = opt_tenant options)
                   (leftJoin (search_documents db) (search_tags db)
                      (\<lambda>d t. search_document_id t = row_id d)))
      = leftJoin (filter (in_scope options) (search_documents db)) (search_tags db)
          (\<lambda>d t. search_document_id t = row_id d)"
    unfolding sqlite_doc_query by (rule leftJoin_filter_left)
  show ?thesis
    unfolding sqlite_getDocuments_def Let_def q ..
qed

lemma in_result_list:
  assumes "d \<in> set (map f (limit n (orderBy_desc k i xs)))"
  obtains x where "x \<in> set xs" and "d = f x"
proof -
  from assms obtain x where x: "x \<in> set (limit n (orderBy_desc k i xs))" and d: "d = f x"
    by auto
  from x set_limit [of n "orderBy_desc k i xs"] have "x \<in> set (orderBy_desc k i xs)" by blast
  then have "x \<in> set xs" by (simp add: set_orderBy_desc)
  with d that show ?thesis by blast
qed

lemma sqlite_select_group_fst:
  assumes "x \<in> set (map sqlite_select (groupBy k (leftJoin ds ts on)))"
  shows "fst x \<in> set ds"
proof -
  from assms obtain r g where rg: "(r, g) \<in> set (groupBy k (leftJoin ds ts on))"
    and x: "x = sqlite_select (r, g)" by auto
  from groupBy_member [OF rg] have "r \<in> set (leftJoin ds ts on)" by simp
  then have "fst r \<in> set ds" by (metis leftJoin_fst prod.collapse)
  with x show ?thesis by (simp add: sqlite_select_def split: prod.splits)
qed

lemma in_scope_tenant: "in_scope options r \<Longrightarrow> row_tenant r = opt_tenant options"
  by (simp add: in_scope_def)

lemma sd_tenant_format:
  "sd_tenant (sqlite_formatDocument (d, ts)) = row_tenant d"
  "sd_tenant (d1_formatDocument d) = row_tenant d"
  "sd_tenant (without_tags x) = sd_tenant x"
  by (simp_all add: sqlite_formatDocument_def d1_formatDocument_def without_tags_def)

lemma stored_in_scope_tenant:
  "stored_in_scope options db d \<Longrightarrow> sd_tenant d = opt_tenant options"
proof -
  assume "stored_in_scope options db d"
  then obtain r where "in_scope options r" "without_tags d = d1_formatDocument r"
    by (auto simp: stored_in_scope_def)
  then show ?thesis
    by (metis in_scope_tenant sd_tenant_format(2,3))
qed

lemma sqlite_getDocuments_stored:
  assumes "d \<in> set (sqlite_getDocuments options db)"
  shows "stored_in_scope options db d"
proof -
  from assms obtain x where x: "x \<in> set (map sqlite_select
                  (groupBy (\<lambda>(d, t). row_id d)
                     (leftJoin (filter (in_scope options) (search_documents db)) (search_tags db)
                        (\<lambda>d t. search_document_id t = row_id d))))"
    and d: "d = sqlite_formatDocument x"
    unfolding sqlite_getDocuments_groups by (rule in_result_list)
  from sqlite_select_group_fst [OF x]
  have "fst x \<in> set (search_documents db)" "in_scope options (fst x)" by simp_all
  moreover have "without_tags d = d1_formatDocument (fst x)"
    unfolding d by (cases x) (simp add: without_tags_format)
  ultimately show ?thesis
    unfolding stored_in_scope_def by blast
qed

lemma d1_getDocuments_stored:
  assumes "d \<in> set (d1_getDocuments options db)"
  shows "stored_in_scope options db d"
proof -
  from assms obtain r where r: "r \<in> set (filter (in_scope options) (search_documents db))"
    and d: "d = d1_formatDocument r"
    unfolding d1_getDocuments_rows by (rule in_result_list)
  have "without_tags d = d1_formatDocument r"
    unfolding d by (simp add: without_tags_def d1_formatDocument_def)
  with r show ?thesis
    unfolding stored_in_scope_def by auto
qed

lemma matching_groups_member:
  assumes "((t, r), g) \<in> set (matching_groups tags options db)"
  shows "r \<in> set (search_documents db)" and "in_scope options r"
proof -
  from assms have "((t, r), g) \<in> set (groupBy (\<lambda>(t, d). row_id d) (tag_rows_in_scope tags options db))"
    by (simp add: matching_groups_def)
  from groupBy_member [OF this] have "(t, r) \<in> set (tag_rows_in_scope tags options db)" by simp
  then show "r \<in> set (search_documents db)" and "in_scope options r"
    by (simp_all add: tag_rows_in_scope_def innerJoin_member)
qed

lemma d1_getDocumentsByTags_stored:
  assumes "d \<in> set (d1_getDocumentsByTags tags options db)"
  shows "stored_in_scope options db d"
proof -
  from assms obtain r
    where r: "r \<in> set (map (\<lambda>((t, d), rows). d) (matching_groups tags options db))"
    and d: "d = d1_formatDocument r"
    unfolding d1_getDocumentsByTags_groups by (rule in_result_list)
  from r obtain t g where "((t, r), g) \<in> set (matching_groups tags options db)" by auto
  from matching_groups_member [OF this]
  have "r \<in> set (search_documents db)" "in_scope options r" .
  moreover have "without_tags d = d1_formatDocument r"
    unfolding d by (simp add: without_tags_def d1_formatDocument_def)
  ultimately show ?thesis
    unfolding stored_in_scope_def by blast
qed

lemma without_tags_idem: "without_tags (without_tags d) = without_tags d"
  by (simp add: without_tags_def)

lemma sqlite_getDocumentsByTags_stored:
  assumes "d \<in> set (sqlite_getDocumentsByTags tags options db)"
  shows "stored_in_scope options db d"
proof -
  from assms have "without_tags d \<in> set (d1_getDocumentsByTags tags options db)"
    unfolding getDocumentsByTags_without_tags [symmetric] by simp
  from d1_getDocumentsByTags_stored [OF this] show ?thesis
    by (simp add: stored_in_scope_def without_tags_idem)
qed

subsection \<open>Tenant isolation of the list and search queries\<close>

text \<open>
  C8. Whatever the state, every document that \<^verbatim>\<open>getDocuments\<close> or \<^verbatim>\<open>getDocumentsByTags\<close>
  returns has its tenant field equal to the tenant of the options, and it is the image
  of a stored row of that tenant (and of the index of the options, when one is named).
  So a document stored under tenant \<open>A\<close> is in no result requested for a tenant \<open>B \<noteq> A\<close>.
  Both adapters behave so.
\<close>

theorem read_queries_tenant_isolation:
  "(\<forall>d \<in> set (sqlite_getDocuments options db).
      sd_tenant d = opt_tenant options \<and> stored_in_scope options db d)
   \<and> (\<forall>d \<in> set (sqlite_getDocumentsByTags tags options db).
      sd_tenant d = opt_tenant options \<and> stored_in_scope options db d)
   \<and> (\<forall>d \<in> set (d1_getDocuments options db).
      sd_tenant d = opt_tenant options \<and> stored_in_scope options db d)
   \<and> (\<forall>d \<in> set (d1_getDocumentsByTags tags options db).
      sd_tenant d = opt_tenant options \<and> stored_in_scope options db d)"
  using sqlite_getDocuments_stored sqlite_getDocumentsByTags_stored d1_getDocuments_stored
    d1_getDocumentsByTags_stored stored_in_scope_tenant
  by blast

theorem read_queries_tenant_isolation_witness:
  "map row_tenant (search_documents db_four) = [''t1'', ''t1'', ''t1'', ''t2'']
   \<and> map sd_id (sqlite_getDocuments options_t1 db_four) = [''c'', ''b'', ''a'']
   \<and> map sd_tenant (sqlite_getDocuments options_t1 db_four) = [''t1'', ''t1'', ''t1'']
   \<and> map sd_tenant (sqlite_getDocumentsByTags [''x''] options_t1 db_four) = [''t1'', ''t1'', ''t1'']
   \<and> map sd_tenant (d1_getDocuments options_t1 db_four) = [''t1'', ''t1'', ''t1'']
   \<and> map sd_tenant (d1_getDocumentsByTags [''x''] options_t1 db_four) = [''t1'', ''t1'', ''t1'']
   \<and> list_all (\<lambda>d. sd_tenant d = opt_tenant options_t1) (sqlite_getDocuments options_t1 db_four)"
proof -
  have "map row_tenant (search_documents db_four) = [''t1'', ''t1'', ''t1'', ''t2'']"
    by code_simp
  moreover have "map sd_id (sqlite_getDocuments options_t1 db_four) = [''c'', ''b'', ''a'']"
    by code_simp
  moreover have "map sd_tenant (sqlite_getDocuments options_t1 db_four) = [''t1'', ''t1'', ''t1'']"
    by code_simp
  moreover have
    "map sd_tenant (sqlite_getDocumentsByTags [''x''] options_t1 db_four) = [''t1'', ''t1'', ''t1'']"
    by code_simp
  moreover have "map sd_tenant (d1_getDocuments options_t1 db_four) = [''t1'', ''t1'', ''t1'']"
    by code_simp
  moreover have
    "map sd_tenant (d1_getDocumentsByTags [''x''] options_t1 db_four) = [''t1'', ''t1'', ''t1'']"
    by code_simp
  moreover have
    "list_all (\<lambda>d. sd_tenant d = opt_tenant options_t1) (sqlite_getDocuments options_t1 db_four)"
    using read_queries_tenant_isolation [of options_t1 db_four "[''x'']"]
    by (simp add: list_all_iff)
  ultimately show ?thesis by blast
qed

subsection \<open>Order and limit of the results\<close>





subsection \<open>The tag rows written by an upsert\<close>

lemma d1_tagsToAdd_set: "set (d1_tagsToAdd tags E) = set tags - tag ` set E"
  by (auto simp: d1_tagsToAdd_def find_None_iff)

lemma d1_tagsToRemove_tags: "tag ` set (d1_tagsToRemove tags E) = tag ` set E - set tags"
  by (auto simp: d1_tagsToRemove_def find_None_iff)

lemma tagsToAdd_eq: "d1_tagsToAdd tags E = sqlite_tagsToAdd tags E"
  unfolding d1_tagsToAdd_def sqlite_tagsToAdd_def Let_def
  by (rule filter_cong [OF refl]) (auto simp: find_None_iff)

lemma tags_of_append:
  "tags_of doc (db\<lparr>search_tags := search_tags db @ map (\<lambda>t. \<lparr>tag = t, search_document_id = doc\<rparr>) ts\<rparr>)
     = tags_of doc db \<union> set ts"
proof -
  have "tag ` set (filter (\<lambda>t. search_document_id t = doc)
                     (map (\<lambda>t. \<lparr>tag = t, search_document_id = doc\<rparr>) ts)) = set ts"
    by (induction ts) auto
  then show ?thesis
    by (simp add: tags_of_def existingTags_def image_Un)
qed

lemma tags_of_delete:
  "tags_of doc (deleteFrom_search_tags_in doc rs db) = tags_of doc db - set rs"
  by (auto simp: tags_of_def existingTags_def deleteFrom_search_tags_in_def image_iff)

lemma d1_write_tags_success:
  assumes "d1_write_tags doc tags db = (db', None)" and "tags \<noteq> []"
  shows "tags_of doc db' = set tags"
proof -
  let ?E = "existingTags doc db"
  from d1_write_tags_cases [of doc tags db] assms
  have "db' = deleteFrom_search_tags_in doc (map tag (d1_tagsToRemove tags ?E))
          (db\<lparr>search_tags := search_tags db @
                map (\<lambda>t. \<lparr>tag = t, search_document_id = doc\<rparr>) (d1_tagsToAdd tags ?E)\<rparr>)"
    by (auto simp: Let_def)
  then have "tags_of doc db'
      = (tags_of doc db \<union> (set tags - tag ` set ?E)) - (tag ` set ?E - set tags)"
    by (simp add: tags_of_delete tags_of_append d1_tagsToAdd_set d1_tagsToRemove_tags)
  then show ?thesis
    by (auto simp: tags_of_def)
qed

lemma sqlite_write_tags_success:
  assumes "sqlite_write_tags doc tags db = (db', None)" and "tags \<noteq> []"
  shows "tags_of doc db' = tags_of doc db \<union> set tags"
proof -
  let ?E = "existingTags doc db"
  have "sqlite_write_tags doc tags db
      = (db\<lparr>search_tags := search_tags db @
                map (\<lambda>t. \<lparr>tag = t, search_document_id = doc\<rparr>) (sqlite_tagsToAdd tags ?E)\<rparr>,
         None)
    \<or> (sqlite_write_tags doc tags db = (db, None) \<and> sqlite_tagsToAdd tags ?E = [])"
  proof (cases "sqlite_tagsToAdd tags ?E = []")
    case True
    then show ?thesis
      by (simp add: sqlite_write_tags_def Let_def sqlite_tagsToRemove_Nil)
  next
    case False
    with sqlite_write_tags_cases [of doc tags db] assms show ?thesis
      by (auto simp: sqlite_write_tags_def Let_def sqlite_tagsToRemove_Nil
          split: sum.splits dest: insertInto_search_tags_Inr)
  qed
  with assms(1) have "tags_of doc db' = tags_of doc db \<union> set (sqlite_tagsToAdd tags ?E)"
    by (auto simp: tags_of_append)
  then show ?thesis
    by (auto simp: tagsToAdd_eq [symmetric] d1_tagsToAdd_set tags_of_def)
qed

lemma write_tags_Nil:
  "d1_write_tags doc [] db = (db, None)" "sqlite_write_tags doc [] db = (db, None)"
  by (simp_all add: d1_write_tags_def sqlite_write_tags_def)

lemma d1_indexDocument_completes:
  assumes "completes (d1_indexDocument now document tags db)"
  obtains db1 db2 where "d1_write_document now document db = Inr db1"
    and "d1_write_tags (body_id document) tags db1 = (db2, None)"
    and "fst (d1_indexDocument now document tags db) = db2"
proof (cases "d1_write_document now document db")
  case (Inl err)
  with assms show ?thesis by (simp add: completes_def d1_indexDocument_def)
next
  case (Inr db1)
  obtain db2 e where w: "d1_write_tags (body_id document) tags db1 = (db2, e)"
    by (cases "d1_write_tags (body_id document) tags db1")
  with assms Inr have "e = None"
    by (cases e) (simp_all add: completes_def d1_indexDocument_def)
  with Inr w that show ?thesis
    by (simp add: d1_indexDocument_def)
qed

lemma sqlite_upsertDocument_completes:
  assumes "completes (sqlite_upsertDocument now document tags db)"
  obtains db1 db2 where "sqlite_write_document now document db = Inr db1"
    and "sqlite_write_tags (body_id document) tags db1 = (db2, None)"
    and "fst (sqlite_upsertDocument now document tags db) = db2"
proof (cases "sqlite_write_document now document db")
  case (Inl err)
  with assms show ?thesis by (simp add: completes_def sqlite_upsertDocument_def)
next
  case (Inr db1)
  obtain db2 e where w: "sqlite_write_tags (body_id document) tags db1 = (db2, e)"
    by (cases "sqlite_write_tags (body_id document) tags db1")
  with assms Inr have "e = None"
    by (cases e) (simp_all add: completes_def sqlite_upsertDocument_def)
  with Inr w that show ?thesis
    by (simp add: sqlite_upsertDocument_def)
qed

lemma tags_of_cong: "search_tags db' = search_tags db \<Longrightarrow> tags_of doc db' = tags_of doc db"
  by (simp add: tags_of_def existingTags_def)

lemma d1_indexDocument_tags:
  assumes "completes (d1_indexDocument now document tags db)" and "tags \<noteq> []"
  shows "tags_of (body_id document) (fst (d1_indexDocument now document tags db)) = set tags"
  using assms(1)
proof (rule d1_indexDocument_completes)
  fix db1 db2
  assume "d1_write_tags (body_id document) tags db1 = (db2, None)"
    and "fst (d1_indexDocument now document tags db) = db2"
  then show ?thesis
    using d1_write_tags_success [OF _ assms(2)] by simp
qed

lemma sqlite_upsertDocument_tags:
  assumes "completes (sqlite_upsertDocument now document tags db)" and "tags \<noteq> []"
  shows "tags_of (body_id document) (fst (sqlite_upsertDocument now document tags db))
           = tags_of (body_id document) db \<union> set tags"
  using assms(1)
proof (rule sqlite_upsertDocument_completes)
  fix db1 db2
  assume d: "sqlite_write_document now document db = Inr db1"
    and "sqlite_write_tags (body_id document) tags db1 = (db2, None)"
    and "fst (sqlite_upsertDocument now document tags db) = db2"
  then show ?thesis
    using sqlite_write_tags_success [OF _ assms(2)]
      tags_of_cong [OF sqlite_write_document_tags [OF d]] by simp
qed

lemma upsert_no_tags:
  "search_tags (fst (d1_indexDocument now document [] db)) = search_tags db"
  "search_tags (fst (sqlite_upsertDocument now document [] db)) = search_tags db"
proof -
  show "search_tags (fst (d1_indexDocument now document [] db)) = search_tags db"
    by (cases "d1_write_document now document db")
       (simp_all add: d1_indexDocument_def write_tags_Nil d1_write_document_tags)
  show "search_tags (fst (sqlite_upsertDocument now document [] db)) = search_tags db"
    by (cases "sqlite_write_document now document db")
       (simp_all add: sqlite_upsertDocument_def write_tags_Nil sqlite_write_document_tags)
qed

lemma insert_new_tags:
  assumes "distinct tags"
  shows "insertInto_search_tags
           (map (\<lambda>t. \<lparr>tag = t, search_document_id = doc\<rparr>)
              (d1_tagsToAdd tags (existingTags doc db))) db
         = Inr (db\<lparr>search_tags := search_tags db @
                    map (\<lambda>t. \<lparr>tag = t, search_document_id = doc\<rparr>)
                      (d1_tagsToAdd tags (existingTags doc db))\<rparr>)"
proof -
  let ?add = "d1_tagsToAdd tags (existingTags doc db)"
  let ?rows = "map (\<lambda>t. \<lparr>tag = t, search_document_id = doc\<rparr>) ?add"
  have "distinct ?add"
    using assms by (simp add: d1_tagsToAdd_def)
  then have d: "distinct ?rows"
    by (simp add: distinct_map inj_on_def)
  have "set ?rows \<inter> set (search_tags db) = {}"
  proof (rule ccontr)
    assume "set ?rows \<inter> set (search_tags db) \<noteq> {}"
    then obtain r where r: "r \<in> set ?rows" "r \<in> set (search_tags db)" by blast
    then obtain t where t: "t \<in> set ?add" "r = \<lparr>tag = t, search_document_id = doc\<rparr>" by auto
    from r(2) t(2) have "r \<in> set (existingTags doc db)" by (simp add: existingTags_def)
    then have "tag r \<in> tag ` set (existingTags doc db)" by (rule imageI)
    with t show False by (simp add: d1_tagsToAdd_set)
  qed
  with d have "insert_tag_rows ?rows (search_tags db) = Some (search_tags db @ ?rows)"
    by (simp add: insert_tag_rows_iff)
  then show ?thesis
    by (simp add: insertInto_search_tags_def)
qed

lemma write_tags_no_error:
  assumes "distinct tags"
  shows "snd (d1_write_tags doc tags db) = None" and "snd (sqlite_write_tags doc tags db) = None"
proof -
  show "snd (d1_write_tags doc tags db) = None"
    by (simp add: d1_write_tags_def Let_def insert_new_tags [OF assms])
  show "snd (sqlite_write_tags doc tags db) = None"
    by (simp add: sqlite_write_tags_def Let_def tagsToAdd_eq [symmetric]
        insert_new_tags [OF assms])
qed

lemma write_document_succeeds:
  assumes "existing_row document db \<noteq> None
             \<or> body_id document \<notin> row_id ` set (search_documents db)"
  shows "\<exists>db1. sqlite_write_document now document db = Inr db1"
    and "\<exists>db1. d1_write_document now document db = Inr db1"
proof -
  show "\<exists>db1. sqlite_write_document now document db = Inr db1"
  proof (cases "existing_row document db")
    case None
    with assms write_document_insert(1) show ?thesis by blast
  next
    case (Some e)
    then show ?thesis by (simp add: sqlite_write_document_def)
  qed
  show "\<exists>db1. d1_write_document now document db = Inr db1"
  proof (cases "existing_row document db")
    case None
    with assms write_document_insert(2) show ?thesis by blast
  next
    case (Some e)
    then show ?thesis by (simp add: d1_write_document_def)
  qed
qed

lemma upsert_completes:
  assumes "distinct tags"
    and "existing_row document db \<noteq> None
           \<or> body_id document \<notin> row_id ` set (search_documents db)"
  shows "completes (d1_indexDocument now document tags db)"
    and "completes (sqlite_upsertDocument now document tags db)"
proof -
  from write_document_succeeds(2) [OF assms(2)]
  obtain db1 where d: "d1_write_document now document db = Inr db1" by blast
  obtain db2 e where w: "d1_write_tags (body_id document) tags db1 = (db2, e)"
    by (cases "d1_write_tags (body_id document) tags db1")
  with write_tags_no_error(1) [OF assms(1), of "body_id document" db1] have "e = None" by simp
  with d w show "completes (d1_indexDocument now document tags db)"
    by (simp add: completes_def d1_indexDocument_def)
next
  from write_document_succeeds(1) [OF assms(2)]
  obtain db1 where d: "sqlite_write_document now document db = Inr db1" by blast
  obtain db2 e where w: "sqlite_write_tags (body_id document) tags db1 = (db2, e)"
    by (cases "sqlite_write_tags (body_id document) tags db1")
  with write_tags_no_error(2) [OF assms(1), of "body_id document" db1] have "e = None" by simp
  with d w show "completes (sqlite_upsertDocument now document tags db)"
    by (simp add: completes_def sqlite_upsertDocument_def)
qed

text \<open>
  C1, as amended. Whatever the tag rows stored for the document before the call: after
  \<^verbatim>\<open>indexDocument\<close> of the D1 adapter with a non-empty tag list completes, the stored tag
  set of the document is exactly the set of the tags of the list; after \<^verbatim>\<open>upsertDocument\<close>
  of the sqlite adapter with a non-empty list completes, every tag of the list is stored
  for the document. A call with the empty list skips the tag statements (the guard
  \<^verbatim>\<open>tags.length > 0\<close>) and leaves the tag table as it was. A call whose list has no
  duplicates completes whenever its document row can be written.
\<close>

theorem upsert_stored_tags:
  "(completes (d1_indexDocument now document tags db) \<and> tags \<noteq> [] \<longrightarrow>
      tags_of (body_id document) (fst (d1_indexDocument now document tags db)) = set tags)
   \<and> (completes (sqlite_upsertDocument now document tags db) \<and> tags \<noteq> [] \<longrightarrow>
      set tags \<subseteq> tags_of (body_id document) (fst (sqlite_upsertDocument now document tags db)))
   \<and> search_tags (fst (d1_indexDocument now document [] db)) = search_tags db
   \<and> search_tags (fst (sqlite_upsertDocument now document [] db)) = search_tags db
   \<and> (distinct tags
        \<and> (existing_row document db \<noteq> None
            \<or> body_id document \<notin> row_id ` set (search_documents db)) \<longrightarrow>
      completes (d1_indexDocument now document tags db)
      \<and> completes (sqlite_upsertDocument now document tags db))"
proof (intro conjI impI)
  assume "completes (d1_indexDocument now document tags db) \<and> tags \<noteq> []"
  then show "tags_of (body_id document) (fst (d1_indexDocument now document tags db)) = set tags"
    using d1_indexDocument_tags by blast
next
  assume "completes (sqlite_upsertDocument now document tags db) \<and> tags \<noteq> []"
  then show "set tags
    \<subseteq> tags_of (body_id document) (fst (sqlite_upsertDocument now document tags db))"
    using sqlite_upsertDocument_tags by blast
next
  assume a: "distinct tags
        \<and> (existing_row document db \<noteq> None
            \<or> body_id document \<notin> row_id ` set (search_documents db))"
  then show "completes (d1_indexDocument now document tags db)"
    using upsert_completes(1) by blast
  from a show "completes (sqlite_upsertDocument now document tags db)"
    using upsert_completes(2) by blast
qed (rule upsert_no_tags)+

theorem upsert_stored_tags_witness:
  "completes (d1_indexDocument 7 body_d1 [''y'', ''z''] db_d1_x)
   \<and> tags_of ''d1'' db_d1_x = {''x''}
   \<and> tags_of (body_id body_d1) (fst (d1_indexDocument 7 body_d1 [''y'', ''z''] db_d1_x))
       = set [''y'', ''z'']
   \<and> search_tags (fst (d1_indexDocument 7 body_d1 [''y'', ''z''] db_d1_x))
       = [\<lparr>tag = ''y'', search_document_id = ''d1''\<rparr>, \<lparr>tag = ''z'', search_document_id = ''d1''\<rparr>]
   \<and> completes (sqlite_upsertDocument 7 body_d1 [''y'', ''z''] db_d1_x)
   \<and> set [''y'', ''z'']
       \<subseteq> tags_of (body_id body_d1) (fst (sqlite_upsertDocument 7 body_d1 [''y'', ''z''] db_d1_x))"
proof -
  have c: "completes (d1_indexDocument 7 body_d1 [''y'', ''z''] db_d1_x)"
    "completes (sqlite_upsertDocument 7 body_d1 [''y'', ''z''] db_d1_x)"
    by code_simp+
  have n: "[''y'', ''z''] \<noteq> ([] :: string list)" by simp
  have t: "tags_of ''d1'' db_d1_x = {''x''}"
    by (simp add: tags_of_def existingTags_def db_d1_x_def)
  have s: "search_tags (fst (d1_indexDocument 7 body_d1 [''y'', ''z''] db_d1_x))
       = [\<lparr>tag = ''y'', search_document_id = ''d1''\<rparr>, \<lparr>tag = ''z'', search_document_id = ''d1''\<rparr>]"
    by code_simp
  show ?thesis
    using c n t s upsert_stored_tags [of 7 body_d1 "[''y'', ''z'']" db_d1_x]
    by blast
qed

text \<open>
  C1 as stated fails for the empty list: the document has the tag \<open>x\<close>, the call with no
  tags completes, and the tag is still stored, where the claim wants the stored set to be
  empty.
\<close>

theorem upsert_stored_tags_counterexample:
  "completes (sqlite_upsertDocument 7 body_d1 [] db_d1_x)
   \<and> tags_of (body_id body_d1) (fst (sqlite_upsertDocument 7 body_d1 [] db_d1_x)) = {''x''}
   \<and> tags_of (body_id body_d1) (fst (sqlite_upsertDocument 7 body_d1 [] db_d1_x)) \<noteq> set []
   \<and> completes (d1_indexDocument 7 body_d1 [] db_d1_x)
   \<and> tags_of (body_id body_d1) (fst (d1_indexDocument 7 body_d1 [] db_d1_x)) = {''x''}
   \<and> tags_of (body_id body_d1) (fst (d1_indexDocument 7 body_d1 [] db_d1_x)) \<noteq> set []"
proof -
  have c: "completes (sqlite_upsertDocument 7 body_d1 [] db_d1_x)"
    "completes (d1_indexDocument 7 body_d1 [] db_d1_x)"
    by code_simp+
  have t: "tags_of ''d1'' db_d1_x = {''x''}"
    by (simp add: tags_of_def existingTags_def db_d1_x_def)
  have b: "body_id body_d1 = ''d1''" by (simp add: body_d1_def)
  have "tags_of ''d1'' (fst (sqlite_upsertDocument 7 body_d1 [] db_d1_x)) = {''x''}"
    using tags_of_cong [OF upsert_no_tags(2), of "''d1''" 7 body_d1 db_d1_x] t by simp
  moreover have "tags_of ''d1'' (fst (d1_indexDocument 7 body_d1 [] db_d1_x)) = {''x''}"
    using tags_of_cong [OF upsert_no_tags(1), of "''d1''" 7 body_d1 db_d1_x] t by simp
  ultimately show ?thesis using c b by simp
qed

subsection \<open>Search by tags\<close>










lemma groupBy_keys_distinct: "distinct (map (\<lambda>(r, g). k r) (groupBy k xs))"
proof (induction k xs rule: groupBy.induct)
  case (1 k)
  then show ?case by simp
next
  case (2 k a xs)
  have "k a \<notin> set (map (\<lambda>(r, g). k r) (groupBy k (filter (\<lambda>y. k y \<noteq> k a) xs)))"
  proof
    assume "k a \<in> set (map (\<lambda>(r, g). k r) (groupBy k (filter (\<lambda>y. k y \<noteq> k a) xs)))"
    then obtain r g where rg: "(r, g) \<in> set (groupBy k (filter (\<lambda>y. k y \<noteq> k a) xs))"
      and e: "k a = k r" by auto
    from groupBy_member [OF rg] have "k r \<noteq> k a" by simp
    with e show False by simp
  qed
  with "2.IH" show ?case by simp
qed

lemma distinct_map_insort_key:
  "distinct (map f (insort_key k x xs)) = distinct (map f (x # xs))"
  by (induction xs) (auto simp: set_insort_key)

lemma distinct_map_sort_key: "distinct (map f (sort_key k xs)) = distinct (map f xs)"
  by (induction xs) (simp_all add: distinct_map_insort_key)

lemma distinct_map_orderBy_desc:
  "distinct (map f (orderBy_desc k i xs)) = distinct (map f xs)"
  by (simp add: orderBy_desc_def rev_map [symmetric] distinct_map_sort_key)


lemma matching_groups_ids_distinct:
  "distinct (map row_id (map (\<lambda>((t, d), rows). d) (matching_groups tags options db)))"
proof -
  have k: "distinct (map (\<lambda>(r, g). (\<lambda>(t, d). row_id d) r) (matching_groups tags options db))"
    unfolding matching_groups_def by (rule distinct_map_filter) (rule groupBy_keys_distinct)
  have m: "map row_id (map (\<lambda>((t, d), rows). d) gs)
             = map (\<lambda>(r, g). (\<lambda>(t, d). row_id d) r) gs"
    for gs :: "((SearchTagTable \<times> SearchDocumentTable)
                \<times> (SearchTagTable \<times> SearchDocumentTable) list) list"
    by (induction gs) (simp_all add: split_def)
  show ?thesis
    unfolding m using k .
qed








subsection \<open>The two adapters compared\<close>

lemma groupBy_append:
  assumes "\<forall>x \<in> set xs. \<forall>y \<in> set ys. k x \<noteq> k y"
  shows "groupBy k (xs @ ys) = groupBy k xs @ groupBy k ys"
  using assms
proof (induction k xs rule: groupBy.induct)
  case (1 k)
  then show ?case by simp
next
  case (2 k a xs)
  have ya: "\<forall>y \<in> set ys. k y \<noteq> k a"
    using "2.prems" by (metis list.set_intros(1))
  have e: "filter (\<lambda>y. k y = k a) ys = []"
    using ya by (simp add: filter_empty_conv)
  have n: "filter (\<lambda>y. k y \<noteq> k a) ys = ys"
    using ya by (simp add: filter_id_conv)
  have p: "\<forall>x \<in> set (filter (\<lambda>y. k y \<noteq> k a) xs). \<forall>y \<in> set ys. k x \<noteq> k y"
    using "2.prems" by simp
  show ?case
    using "2.IH" [OF p] by (simp add: e n)
qed

lemma leftJoin_Cons_single:
  "leftJoin (d # ds) ts on = leftJoin [d] ts on @ leftJoin ds ts on"
  by (simp add: leftJoin_def)

lemma sqlite_select_groups:
  assumes "distinct (map row_id ds)"
  shows "map sqlite_select (groupBy (\<lambda>(d, t). row_id d) (leftJoin ds ts on))
           = map (\<lambda>d. (d, group_concat (map (\<lambda>t. Some (tag t)) (filter (on d) ts)))) ds"
  using assms
proof (induction ds)
  case Nil
  then show ?case by (simp add: leftJoin_Nil)
next
  case (Cons d ds)
  have sep: "\<forall>x \<in> set (leftJoin [d] ts on). \<forall>y \<in> set (leftJoin ds ts on).
               (\<lambda>(d, t). row_id d) x \<noteq> (\<lambda>(d, t). row_id d) y"
  proof (intro ballI)
    fix x y
    assume x: "x \<in> set (leftJoin [d] ts on)" and y: "y \<in> set (leftJoin ds ts on)"
    have "fst x \<in> set [d]"
      using x by (metis leftJoin_fst prod.collapse)
    then have fx: "fst x = d" by simp
    have fy: "fst y \<in> set ds"
      using y by (metis leftJoin_fst prod.collapse)
    have "row_id d \<notin> row_id ` set ds"
      using Cons.prems by simp
    with fy have "row_id d \<noteq> row_id (fst y)" by (metis imageI)
    with fx show "(\<lambda>(d, t). row_id d) x \<noteq> (\<lambda>(d, t). row_id d) y"
      by (simp add: split_def)
  qed
  have ds: "distinct (map row_id ds)"
    using Cons.prems by simp
  show ?case
    unfolding leftJoin_Cons_single [of d ds] groupBy_append [OF sep]
    using Cons.IH [OF ds] by (simp add: sqlite_select_single)
qed

lemma without_tags_rows:
  "map without_tags (map sqlite_formatDocument xs) = map d1_formatDocument (map fst xs)"
  by (induction xs) (auto simp: without_tags_format)

text \<open>Rows with distinct sort keys have one descending order: whatever order an engine
  gives to rows with equal keys, a list of these rows in descending order is this one.\<close>

lemma descending_order_unique:
  fixes k :: "'a \<Rightarrow> int"
  assumes "distinct (map k xs)" and "sorted_wrt (\<lambda>a b. k b \<le> k a) ys"
    and "distinct ys" and "set ys = set xs"
  shows "ys = orderBy_desc k i xs"
proof -
  let ?zs = "orderBy_desc k i xs"
  let ?f = "\<lambda>r. - k r"
  have "inj_on k (set xs)" and dx: "distinct xs"
    using assms(1) by (simp_all add: distinct_map)
  then have inj: "inj_on ?f (set xs)"
    by (simp add: inj_on_def)
  have i: "inj_on ?f (set ys \<union> set ?zs)"
    using inj by (simp add: assms(4) set_orderBy_desc)
  have sy: "sorted (map ?f ys)"
    using assms(2) by (simp add: sorted_map)
  have dy: "distinct (map ?f ys)"
    using assms(3) inj by (simp add: distinct_map assms(4))
  have sz: "sorted (map ?f ?zs)"
    using sorted_orderBy_desc [of k i xs] by (simp add: sorted_map)
  have "distinct ?zs"
    using dx by (simp add: orderBy_desc_def)
  then have dz: "distinct (map ?f ?zs)"
    using inj by (simp add: distinct_map set_orderBy_desc)
  show ?thesis
    by (rule map_sorted_distinct_set_unique [OF i sy dy sz dz])
       (simp add: assms(4) set_orderBy_desc)
qed

lemma getDocuments_without_tags:
  assumes "distinct (map row_id (search_documents db))"
    and "distinct (map updated_at (filter (in_scope options) (search_documents db)))"
  shows "d1_getDocuments options db = map without_tags (sqlite_getDocuments options db)"
proof -
  let ?rows = "filter (in_scope options) (search_documents db)"
  let ?S = "map sqlite_select
              (groupBy (\<lambda>(d, t). row_id d)
                 (leftJoin ?rows (search_tags db) (\<lambda>d t. search_document_id t = row_id d)))"
  let ?O = "orderBy_desc (\<lambda>(d, tags). updated_at d) (\<lambda>(d, tags). row_id d) ?S"
  have d: "distinct (map row_id ?rows)"
    using assms(1) by (rule distinct_map_filter)
  have f: "map fst ?S = ?rows"
    unfolding sqlite_select_groups [OF d] by (simp add: comp_def)
  have srt: "sorted_wrt (\<lambda>a b. updated_at b \<le> updated_at a) (map fst ?O)"
    using sorted_orderBy_desc [of "\<lambda>(d, tags). updated_at d" "\<lambda>(d, tags). row_id d" ?S]
    by (simp add: sorted_wrt_map split_def)
  have "distinct ?rows"
    using d by (simp add: distinct_map)
  then have dis: "distinct (map fst ?O)"
    unfolding distinct_map_orderBy_desc f .
  have "set (map fst ?O) = set (map fst ?S)"
    by (simp only: set_map set_orderBy_desc)
  then have st: "set (map fst ?O) = set ?rows"
    unfolding f .
  have e: "map fst ?O = orderBy_desc updated_at row_id ?rows"
    by (rule descending_order_unique [OF assms(2) srt dis st])
  have "map without_tags (sqlite_getDocuments options db)
          = map d1_formatDocument (map fst (limit (opt_limit options) ?O))"
    unfolding sqlite_getDocuments_groups without_tags_rows ..
  also have "\<dots> = map d1_formatDocument (limit (opt_limit options) (map fst ?O))"
    by (simp only: map_limit)
  also have "\<dots> = d1_getDocuments options db"
    unfolding e d1_getDocuments_rows ..
  finally show ?thesis
    by (rule sym)
qed

lemma getDocumentsByTags_agree:
  assumes "distinct (map updated_at (filter (in_scope options) (search_documents db)))"
  shows "d1_getDocumentsByTags tags options db
           = map without_tags (sqlite_getDocumentsByTags tags options db)"
proof -
  let ?G = "matching_groups tags options db"
  let ?R = "map (\<lambda>((t, d), rows). d) ?G"
  let ?S = "map (\<lambda>((t, d), rows). (d, group_concat (map (\<lambda>(t', d'). Some (tag t')) rows))) ?G"
  let ?O = "orderBy_desc (\<lambda>(d, tags). updated_at d) (\<lambda>(d, tags). row_id d) ?S"
  have f: "map fst ?S = ?R"
    by (simp add: split_def comp_def)
  from matching_groups_ids_distinct [of tags options db]
  have dR: "distinct ?R"
    by (simp only: distinct_map)
  have sub: "set ?R \<subseteq> set (filter (in_scope options) (search_documents db))"
  proof
    fix r
    assume "r \<in> set ?R"
    then obtain t g where "((t, r), g) \<in> set ?G" by auto
    from matching_groups_member [OF this] show "r \<in> set (filter (in_scope options) (search_documents db))"
      by simp
  qed
  have "inj_on updated_at (set (filter (in_scope options) (search_documents db)))"
    using assms by (simp only: distinct_map)
  then have "inj_on updated_at (set ?R)"
    using sub by (rule inj_on_subset)
  with dR have k: "distinct (map updated_at ?R)"
    by (simp only: distinct_map simp_thms)
  have srt: "sorted_wrt (\<lambda>a b. updated_at b \<le> updated_at a) (map fst ?O)"
    using sorted_orderBy_desc [of "\<lambda>(d, tags). updated_at d" "\<lambda>(d, tags). row_id d" ?S]
    by (simp add: sorted_wrt_map split_def)
  have dis: "distinct (map fst ?O)"
    unfolding distinct_map_orderBy_desc f by (rule dR)
  have "set (map fst ?O) = set (map fst ?S)"
    by (simp only: set_map set_orderBy_desc)
  then have st: "set (map fst ?O) = set ?R"
    unfolding f .
  have e: "map fst ?O = orderBy_desc updated_at row_id ?R"
    by (rule descending_order_unique [OF k srt dis st])
  have "map without_tags (sqlite_getDocumentsByTags tags options db)
          = map d1_formatDocument (map fst (limit (opt_limit options) ?O))"
    unfolding sqlite_getDocumentsByTags_groups without_tags_rows ..
  also have "\<dots> = map d1_formatDocument (limit (opt_limit options) (map fst ?O))"
    by (simp only: map_limit)
  also have "\<dots> = d1_getDocumentsByTags tags options db"
    unfolding e d1_getDocumentsByTags_groups ..
  finally show ?thesis
    by (rule sym)
qed

text \<open>The two adapters return equally many documents, whatever the order of the rows.\<close>

lemma getDocuments_length:
  assumes "distinct (map row_id (search_documents db))"
  shows "length (d1_getDocuments options db) = length (sqlite_getDocuments options db)"
proof -
  have d: "distinct (map row_id (filter (in_scope options) (search_documents db)))"
    using assms by (rule distinct_map_filter)
  show ?thesis
    unfolding sqlite_getDocuments_groups d1_getDocuments_rows sqlite_select_groups [OF d]
    by (simp add: length_limit length_orderBy_desc)
qed

lemma getDocumentsByTags_length:
  "length (d1_getDocumentsByTags tags options db)
     = length (sqlite_getDocumentsByTags tags options db)"
  unfolding sqlite_getDocumentsByTags_groups d1_getDocumentsByTags_groups
  by (simp add: length_limit length_orderBy_desc)

lemma getDocument_without_tags:
  assumes "distinct (map row_id (search_documents db))"
  shows "d1_getDocument id' db = map_option without_tags (sqlite_getDocument id' db)"
proof (cases "id' \<in> row_id ` set (search_documents db)")
  case True
  then obtain r where r: "r \<in> set (search_documents db)" and i: "id' = row_id r" by blast
  show ?thesis
    unfolding i sqlite_getDocument_stored [OF assms r] d1_getDocument_stored [OF assms r]
    by (simp add: without_tags_format)
next
  case False
  then show ?thesis
    by (simp add: sqlite_getDocument_absent d1_getDocument_absent)
qed

lemma write_document_eq:
  assumes "distinct (map row_id (search_documents db))"
  shows "d1_write_document now document db = sqlite_write_document now document db"
proof (cases "existing_row document db")
  case None
  then show ?thesis
    by (simp add: d1_write_document_def sqlite_write_document_def)
next
  case (Some e)
  from existing_row_Some [OF Some]
  have e: "e \<in> set (search_documents db)" "row_id e = body_id document"
    "row_tenant e = body_tenant document" "row_index e = body_index document"
    by simp_all
  show ?thesis
    unfolding d1_write_document_update [OF assms e] sqlite_write_document_update [OF assms e] ..
qed

lemma write_tags_snd:
  "snd (d1_write_tags doc tags db) = snd (sqlite_write_tags doc tags db)"
proof (cases "insertInto_search_tags
                (map (\<lambda>t. \<lparr>tag = t, search_document_id = doc\<rparr>)
                   (sqlite_tagsToAdd tags (existingTags doc db))) db")
  case (Inl err)
  then show ?thesis
    by (simp add: d1_write_tags_def sqlite_write_tags_def Let_def tagsToAdd_eq)
next
  case (Inr db')
  then show ?thesis
    by (simp add: d1_write_tags_def sqlite_write_tags_def Let_def tagsToAdd_eq)
qed

lemma d1_tagsToRemove_Nil:
  assumes "tags_of doc db \<subseteq> set tags"
  shows "d1_tagsToRemove tags (existingTags doc db) = []"
proof -
  have "\<forall>e \<in> set (existingTags doc db). tag e \<in> set tags"
    using assms by (auto simp: tags_of_def)
  then show ?thesis
    by (simp add: d1_tagsToRemove_def filter_empty_conv find_None_iff)
qed

lemma write_tags_eq:
  assumes "tags = [] \<or> tags_of doc db \<subseteq> set tags"
  shows "d1_write_tags doc tags db = sqlite_write_tags doc tags db"
proof (cases "tags = []")
  case True
  then show ?thesis by (simp add: write_tags_Nil)
next
  case False
  with assms have r: "d1_tagsToRemove tags (existingTags doc db) = []"
    by (simp add: d1_tagsToRemove_Nil)
  show ?thesis
    unfolding d1_write_tags_def sqlite_write_tags_def Let_def tagsToAdd_eq
      sqlite_tagsToRemove_Nil r ..
qed

lemma without_tags_upsert_result:
  "without_tags (upsert_result now document ts ex) = upsert_result now document None ex"
  by (simp add: without_tags_def upsert_result_def)

lemma upsert_snd:
  assumes "distinct (map row_id (search_documents db))"
  shows "snd (d1_indexDocument now document tags db)
           = map_sum id without_tags (snd (sqlite_upsertDocument now document tags db))"
proof (cases "sqlite_write_document now document db")
  case (Inl err)
  then show ?thesis
    by (simp add: d1_indexDocument_def sqlite_upsertDocument_def write_document_eq [OF assms])
next
  case (Inr db1)
  obtain a e where a: "d1_write_tags (body_id document) tags db1 = (a, e)"
    by (cases "d1_write_tags (body_id document) tags db1")
  obtain b e' where b: "sqlite_write_tags (body_id document) tags db1 = (b, e')"
    by (cases "sqlite_write_tags (body_id document) tags db1")
  from a b write_tags_snd [of "body_id document" tags db1] have e: "e' = e" by simp
  show ?thesis
    using Inr a b e
    by (cases e)
       (simp_all add: d1_indexDocument_def sqlite_upsertDocument_def
          write_document_eq [OF assms] without_tags_upsert_result)
qed

lemma upsert_fst_documents:
  assumes "distinct (map row_id (search_documents db))"
  shows "search_documents (fst (d1_indexDocument now document tags db))
           = search_documents (fst (sqlite_upsertDocument now document tags db))"
proof (cases "sqlite_write_document now document db")
  case (Inl err)
  then show ?thesis
    by (simp add: d1_indexDocument_def sqlite_upsertDocument_def write_document_eq [OF assms])
next
  case (Inr db1)
  then have "d1_write_document now document db = Inr db1"
    by (simp add: write_document_eq [OF assms])
  from upsert_documents_after(2) [OF this] upsert_documents_after(1) [OF Inr]
  show ?thesis by simp
qed

lemma upsert_fst_eq:
  assumes "distinct (map row_id (search_documents db))"
    and "tags = [] \<or> tags_of (body_id document) db \<subseteq> set tags"
  shows "fst (d1_indexDocument now document tags db)
           = fst (sqlite_upsertDocument now document tags db)"
proof (cases "sqlite_write_document now document db")
  case (Inl err)
  then show ?thesis
    by (simp add: d1_indexDocument_def sqlite_upsertDocument_def write_document_eq [OF assms(1)])
next
  case (Inr db1)
  then have d: "d1_write_document now document db = Inr db1"
    by (simp add: write_document_eq [OF assms(1)])
  have "tags_of (body_id document) db1 = tags_of (body_id document) db"
    using sqlite_write_document_tags [OF Inr] by (rule tags_of_cong)
  with assms(2) have "tags = [] \<or> tags_of (body_id document) db1 \<subseteq> set tags" by simp
  then have "d1_write_tags (body_id document) tags db1
               = sqlite_write_tags (body_id document) tags db1"
    by (rule write_tags_eq)
  then show ?thesis
    by (simp add: d1_indexDocument_fst [OF d] sqlite_upsertDocument_fst [OF Inr])
qed

text \<open>
  C3, as amended. From equal states in which the unique indexes hold, and with equal
  arguments: \<^verbatim>\<open>deleteDocument\<close> and \<^verbatim>\<open>getTags\<close> of the two adapters give equal results and
  states; \<^verbatim>\<open>getDocument\<close> of the D1 adapter returns the document the sqlite adapter
  returns without the \<^verbatim>\<open>tags\<close> property, which the objects of the D1 adapter do not have;
  \<^verbatim>\<open>getDocuments\<close> and \<^verbatim>\<open>getDocumentsByTags\<close> of the two adapters return equally many
  documents and, when no two documents in the scope of the call have the same
  \<open>updated_at\<close>, the D1 adapter returns the documents the sqlite adapter returns, in the
  same order, without the \<^verbatim>\<open>tags\<close> property; \<^verbatim>\<open>indexDocument\<close> and \<^verbatim>\<open>upsertDocument\<close> fail with
  the same error or return the same object up to \<^verbatim>\<open>tags\<close>, leave equal documents tables,
  and leave equal states when the tag list is empty or holds every tag stored for the
  document.
\<close>

theorem adapters_agree_up_to_tags:
  assumes "unique_indexes db"
  shows "d1_getDocument id' db = map_option without_tags (sqlite_getDocument id' db)
    \<and> length (d1_getDocuments options db) = length (sqlite_getDocuments options db)
    \<and> length (d1_getDocumentsByTags tags options db)
        = length (sqlite_getDocumentsByTags tags options db)
    \<and> (distinct (map updated_at (filter (in_scope options) (search_documents db))) \<longrightarrow>
          d1_getDocuments options db = map without_tags (sqlite_getDocuments options db))
    \<and> (distinct (map updated_at (filter (in_scope options) (search_documents db))) \<longrightarrow>
          d1_getDocumentsByTags tags options db
            = map without_tags (sqlite_getDocumentsByTags tags options db))
    \<and> d1_deleteDocument id' db = sqlite_deleteDocument id' db
    \<and> d1_getTags db = sqlite_getTags db
    \<and> snd (d1_indexDocument now document tags db)
        = map_sum id without_tags (snd (sqlite_upsertDocument now document tags db))
    \<and> search_documents (fst (d1_indexDocument now document tags db))
        = search_documents (fst (sqlite_upsertDocument now document tags db))
    \<and> (tags = [] \<or> tags_of (body_id document) db \<subseteq> set tags \<longrightarrow>
          fst (d1_indexDocument now document tags db)
            = fst (sqlite_upsertDocument now document tags db))"
proof -
  have d: "distinct (map row_id (search_documents db))"
    using assms by (simp add: unique_indexes_def)
  have t: "d1_getTags db = sqlite_getTags db"
    by (simp add: d1_getTags_def sqlite_getTags_def)
  show ?thesis
  proof (intro conjI impI)
    show "d1_getDocument id' db = map_option without_tags (sqlite_getDocument id' db)"
      by (rule getDocument_without_tags [OF d])
    show "length (d1_getDocuments options db) = length (sqlite_getDocuments options db)"
      by (rule getDocuments_length [OF d])
    show "length (d1_getDocumentsByTags tags options db)
            = length (sqlite_getDocumentsByTags tags options db)"
      by (rule getDocumentsByTags_length)
    show "d1_getDocuments options db = map without_tags (sqlite_getDocuments options db)"
      if "distinct (map updated_at (filter (in_scope options) (search_documents db)))"
      using d that by (rule getDocuments_without_tags)
    show "d1_getDocumentsByTags tags options db
            = map without_tags (sqlite_getDocumentsByTags tags options db)"
      if "distinct (map updated_at (filter (in_scope options) (search_documents db)))"
      using that by (rule getDocumentsByTags_agree)
    show "d1_deleteDocument id' db = sqlite_deleteDocument id' db"
      by (rule d1_deleteDocument_eq)
    show "d1_getTags db = sqlite_getTags db"
      by (rule t)
    show "snd (d1_indexDocument now document tags db)
            = map_sum id without_tags (snd (sqlite_upsertDocument now document tags db))"
      by (rule upsert_snd [OF d])
    show "search_documents (fst (d1_indexDocument now document tags db))
            = search_documents (fst (sqlite_upsertDocument now document tags db))"
      by (rule upsert_fst_documents [OF d])
    show "fst (d1_indexDocument now document tags db)
            = fst (sqlite_upsertDocument now document tags db)"
      if "tags = [] \<or> tags_of (body_id document) db \<subseteq> set tags"
      using d that by (rule upsert_fst_eq)
  qed
qed

theorem adapters_agree_up_to_tags_witness:
  "unique_indexes db_three
   \<and> opt_limit options_t1 = 100
   \<and> map updated_at (filter (in_scope options_t1) (search_documents db_three)) = [5, 7, 9]
   \<and> distinct (map updated_at (filter (in_scope options_t1) (search_documents db_three)))
   \<and> map (\<lambda>d. (sd_id d, sd_tags d)) (sqlite_getDocuments options_t1 db_three)
       = [(''c'', Some [''x'']), (''a'', Some [''x'', ''y'']), (''b'', Some [''x''])]
   \<and> map (\<lambda>d. (sd_id d, sd_tags d)) (d1_getDocuments options_t1 db_three)
       = [(''c'', None), (''a'', None), (''b'', None)]
   \<and> d1_getDocuments options_t1 db_three
       = map without_tags (sqlite_getDocuments options_t1 db_three)
   \<and> d1_getDocumentsByTags [''x''] options_t1 db_three
       = map without_tags (sqlite_getDocumentsByTags [''x''] options_t1 db_three)
   \<and> d1_getDocument ''a'' db_three = map_option without_tags (sqlite_getDocument ''a'' db_three)
   \<and> tags_of (body_id body_a) db_three \<subseteq> set [''x'', ''y'', ''z'']
   \<and> fst (d1_indexDocument 11 body_a [''x'', ''y'', ''z''] db_three)
       = fst (sqlite_upsertDocument 11 body_a [''x'', ''y'', ''z''] db_three)"
proof -
  have u: "unique_indexes db_three" by code_simp
  have n: "opt_limit options_t1 = 100" by (simp add: options_t1_def)
  have k: "map updated_at (filter (in_scope options_t1) (search_documents db_three)) = [5, 7, 9]"
    by code_simp
  have h: "distinct (map updated_at (filter (in_scope options_t1) (search_documents db_three)))"
    unfolding k by simp
  have s: "map (\<lambda>d. (sd_id d, sd_tags d)) (sqlite_getDocuments options_t1 db_three)
       = [(''c'', Some [''x'']), (''a'', Some [''x'', ''y'']), (''b'', Some [''x''])]"
    by code_simp
  have t: "map (\<lambda>d. (sd_id d, sd_tags d)) (d1_getDocuments options_t1 db_three)
       = [(''c'', None), (''a'', None), (''b'', None)]"
    by code_simp
  have e: "existingTags (body_id body_a) db_three
             = [\<lparr>tag = ''x'', search_document_id = ''a''\<rparr>, \<lparr>tag = ''y'', search_document_id = ''a''\<rparr>]"
    by code_simp
  have sub: "tags_of (body_id body_a) db_three \<subseteq> set [''x'', ''y'', ''z'']"
    unfolding tags_of_def e by simp
  show ?thesis
    using u n k h s t sub
      adapters_agree_up_to_tags [OF u, of "''a''" options_t1 "[''x'']" 11 body_a]
      adapters_agree_up_to_tags [OF u, of "''a''" options_t1 "[''x'', ''y'', ''z'']" 11 body_a]
    by blast
qed

text \<open>
  C3 as stated fails on the results: for the same stored document the sqlite adapter
  returns an object with its tags and the D1 adapter one without. It also fails on the
  states after an upsert with a list that lacks a stored tag.
\<close>

theorem adapters_agree_counterexample:
  "sqlite_getDocument ''d1'' db_d1_x
     = Some \<lparr>sd_id = ''d1'', sd_tenant = ''t1'', sd_index = ''docs'', sd_data = ''{}'',
             sd_tags = Some [''x''], createdAt = 5, updatedAt = 5\<rparr>
   \<and> d1_getDocument ''d1'' db_d1_x
     = Some \<lparr>sd_id = ''d1'', sd_tenant = ''t1'', sd_index = ''docs'', sd_data = ''{}'',
             sd_tags = None, createdAt = 5, updatedAt = 5\<rparr>
   \<and> sqlite_getDocument ''d1'' db_d1_x \<noteq> d1_getDocument ''d1'' db_d1_x
   \<and> search_tags (fst (sqlite_upsertDocument 7 body_d1 [''y''] db_d1_x))
     = [\<lparr>tag = ''x'', search_document_id = ''d1''\<rparr>, \<lparr>tag = ''y'', search_document_id = ''d1''\<rparr>]
   \<and> search_tags (fst (d1_indexDocument 7 body_d1 [''y''] db_d1_x))
     = [\<lparr>tag = ''y'', search_document_id = ''d1''\<rparr>]
   \<and> fst (sqlite_upsertDocument 7 body_d1 [''y''] db_d1_x)
     \<noteq> fst (d1_indexDocument 7 body_d1 [''y''] db_d1_x)"
proof -
  have a: "sqlite_getDocument ''d1'' db_d1_x
     = Some \<lparr>sd_id = ''d1'', sd_tenant = ''t1'', sd_index = ''docs'', sd_data = ''{}'',
             sd_tags = Some [''x''], createdAt = 5, updatedAt = 5\<rparr>"
    by code_simp
  have b: "d1_getDocument ''d1'' db_d1_x
     = Some \<lparr>sd_id = ''d1'', sd_tenant = ''t1'', sd_index = ''docs'', sd_data = ''{}'',
             sd_tags = None, createdAt = 5, updatedAt = 5\<rparr>"
    by code_simp
  have c: "search_tags (fst (sqlite_upsertDocument 7 body_d1 [''y''] db_d1_x))
     = [\<lparr>tag = ''x'', search_document_id = ''d1''\<rparr>, \<lparr>tag = ''y'', search_document_id = ''d1''\<rparr>]"
    by code_simp
  have d: "search_tags (fst (d1_indexDocument 7 body_d1 [''y''] db_d1_x))
     = [\<lparr>tag = ''y'', search_document_id = ''d1''\<rparr>]"
    by code_simp
  have "fst (sqlite_upsertDocument 7 body_d1 [''y''] db_d1_x)
     \<noteq> fst (d1_indexDocument 7 body_d1 [''y''] db_d1_x)"
  proof
    assume "fst (sqlite_upsertDocument 7 body_d1 [''y''] db_d1_x)
              = fst (d1_indexDocument 7 body_d1 [''y''] db_d1_x)"
    then have "search_tags (fst (sqlite_upsertDocument 7 body_d1 [''y''] db_d1_x))
              = search_tags (fst (d1_indexDocument 7 body_d1 [''y''] db_d1_x))"
      by simp
    then show False unfolding c d by simp
  qed
  moreover have "sqlite_getDocument ''d1'' db_d1_x \<noteq> d1_getDocument ''d1'' db_d1_x"
    unfolding a b by simp
  ultimately show ?thesis
    using a b c d by simp
qed

end
